theory Spec2Isabelle
  imports Complex_Main "HOL-Library.Word" "HOL-Library.Log_Nat"
begin

section \<open>The arbitrary-precision decimals of bignumber.js\<close>

text \<open>
  \<^verbatim>\<open>BuyTicketsModal.tsx\<close> computes with the \<^verbatim>\<open>BigNumber\<close> class of the library
  bignumber.js. A value is NaN, an infinity or a finite decimal. The model keeps a
  finite value as the rational it denotes; the type is wider than the decimals, and what
  is proved of every rational holds of every decimal. Zero carries no sign here: the library's
  \<^verbatim>\<open>-0\<close> compares equal to \<^verbatim>\<open>0\<close> and prints as \<^verbatim>\<open>0\<close>, and its sign shows only when
  it is a divisor, which no divisor of this component (a ticket price, a discount
  divisor, the constant 100) is.

  Sums, differences and products are exact. A quotient is rounded to
  \<^verbatim>\<open>DECIMAL_PLACES\<close> decimals by \<^verbatim>\<open>ROUNDING_MODE\<close>; both are settings of the library
  (20 and \<^verbatim>\<open>ROUND_HALF_UP\<close> unless the application sets them), as are the exponents
  \<^verbatim>\<open>TO_EXP_NEG\<close> and \<^verbatim>\<open>TO_EXP_POS\<close> (the setting \<^verbatim>\<open>EXPONENTIAL_AT\<close>, -7 and 21 as
  shipped) from which a number prints in exponential notation. The file under study
  does not set them, so the model takes them as a parameter.
\<close>

datatype rounding_mode =
    ROUND_UP | ROUND_DOWN | ROUND_CEIL | ROUND_FLOOR
  | ROUND_HALF_UP | ROUND_HALF_DOWN | ROUND_HALF_EVEN | ROUND_HALF_CEIL | ROUND_HALF_FLOOR

record config =
  DECIMAL_PLACES :: nat
  ROUNDING_MODE :: rounding_mode
  TO_EXP_NEG :: int
  TO_EXP_POS :: int

datatype BigNumber = NaN | PosInfinity | NegInfinity | Fin rat

definition BIG_ZERO :: BigNumber where
  "BIG_ZERO = Fin 0"

definition round_half_even :: "rat \<Rightarrow> int" where
  "round_half_even q =
     (let f = \<lfloor>q\<rfloor>; d = q - of_int f
      in if d < 1 / 2 then f else if 1 / 2 < d then f + 1
         else if even f then f else f + 1)"

fun round_int :: "rounding_mode \<Rightarrow> rat \<Rightarrow> int" where
  "round_int ROUND_UP q = (if 0 \<le> q then \<lceil>q\<rceil> else \<lfloor>q\<rfloor>)"
| "round_int ROUND_DOWN q = (if 0 \<le> q then \<lfloor>q\<rfloor> else \<lceil>q\<rceil>)"
| "round_int ROUND_CEIL q = \<lceil>q\<rceil>"
| "round_int ROUND_FLOOR q = \<lfloor>q\<rfloor>"
| "round_int ROUND_HALF_UP q = (if 0 \<le> q then \<lfloor>q + 1 / 2\<rfloor> else \<lceil>q - 1 / 2\<rceil>)"
| "round_int ROUND_HALF_DOWN q = (if 0 \<le> q then \<lceil>q - 1 / 2\<rceil> else \<lfloor>q + 1 / 2\<rfloor>)"
| "round_int ROUND_HALF_EVEN q = round_half_even q"
| "round_int ROUND_HALF_CEIL q = \<lfloor>q + 1 / 2\<rfloor>"
| "round_int ROUND_HALF_FLOOR q = \<lceil>q - 1 / 2\<rceil>"

definition round_dp :: "config \<Rightarrow> rat \<Rightarrow> rat" where
  "round_dp cfg q =
     of_int (round_int (ROUNDING_MODE cfg) (q * 10 ^ DECIMAL_PLACES cfg)) / 10 ^ DECIMAL_PLACES cfg"

text \<open>The settings of the library as it ships.\<close>

definition bignumber_defaults :: config where
  "bignumber_defaults =
     \<lparr>DECIMAL_PLACES = 20, ROUNDING_MODE = ROUND_HALF_UP, TO_EXP_NEG = - 7, TO_EXP_POS = 21\<rparr>"

text \<open>A rational is an integer; \<open>is_int (q * 10 ^ k)\<close> says that \<open>q\<close> has at most \<open>k\<close> decimals.\<close>

definition is_int :: "rat \<Rightarrow> bool" where
  "is_int q \<longleftrightarrow> of_int \<lfloor>q\<rfloor> = q"

text \<open>\<^verbatim>\<open>x.plus(y)\<close>: NaN when an operand is NaN or the infinities have opposite signs.\<close>

fun bn_plus :: "BigNumber \<Rightarrow> BigNumber \<Rightarrow> BigNumber" where
  "bn_plus NaN _ = NaN"
| "bn_plus _ NaN = NaN"
| "bn_plus PosInfinity NegInfinity = NaN"
| "bn_plus NegInfinity PosInfinity = NaN"
| "bn_plus PosInfinity _ = PosInfinity"
| "bn_plus NegInfinity _ = NegInfinity"
| "bn_plus (Fin a) PosInfinity = PosInfinity"
| "bn_plus (Fin a) NegInfinity = NegInfinity"
| "bn_plus (Fin a) (Fin b) = Fin (a + b)"

text \<open>\<^verbatim>\<open>x.negated()\<close>, and \<^verbatim>\<open>x.minus(y)\<close>, which the library computes as \<^verbatim>\<open>x.plus(-y)\<close>.\<close>

fun bn_negated :: "BigNumber \<Rightarrow> BigNumber" where
  "bn_negated NaN = NaN"
| "bn_negated PosInfinity = NegInfinity"
| "bn_negated NegInfinity = PosInfinity"
| "bn_negated (Fin a) = Fin (- a)"

definition bn_minus :: "BigNumber \<Rightarrow> BigNumber \<Rightarrow> BigNumber" where
  "bn_minus x y = bn_plus x (bn_negated y)"

text \<open>The sign of a value that is not NaN: \<open>-1\<close>, \<open>0\<close> (zero) or \<open>1\<close>.\<close>

fun bn_sign :: "BigNumber \<Rightarrow> int" where
  "bn_sign NaN = 0"
| "bn_sign PosInfinity = 1"
| "bn_sign NegInfinity = - 1"
| "bn_sign (Fin a) = (if a < 0 then - 1 else if a = 0 then 0 else 1)"

definition bn_signed_infinity :: "int \<Rightarrow> BigNumber" where
  "bn_signed_infinity s = (if s < 0 then NegInfinity else PosInfinity)"

text \<open>
  \<^verbatim>\<open>x.times(y)\<close>: NaN when an operand is NaN or one is zero and the other infinite; an
  infinity of the product's sign when an operand is infinite; the exact product otherwise.
\<close>

fun bn_times :: "BigNumber \<Rightarrow> BigNumber \<Rightarrow> BigNumber" where
  "bn_times NaN _ = NaN"
| "bn_times _ NaN = NaN"
| "bn_times (Fin a) (Fin b) = Fin (a * b)"
| "bn_times x y =
     (if bn_sign x = 0 \<or> bn_sign y = 0 then NaN else bn_signed_infinity (bn_sign x * bn_sign y))"

text \<open>
  \<^verbatim>\<open>x.div(y)\<close>: NaN when an operand is NaN, or both are infinite, or both are zero; zero
  when \<open>x\<close> is zero or \<open>y\<close> is infinite; an infinity when \<open>x\<close> is infinite or \<open>y\<close> is zero
  (a division by zero raises nothing); the quotient rounded to the configured decimals
  otherwise.
\<close>

fun bn_div :: "config \<Rightarrow> BigNumber \<Rightarrow> BigNumber \<Rightarrow> BigNumber" where
  "bn_div cfg NaN _ = NaN"
| "bn_div cfg _ NaN = NaN"
| "bn_div cfg (Fin a) (Fin b) =
     (if b = 0 then (if a = 0 then NaN else bn_signed_infinity (bn_sign (Fin a)))
      else Fin (round_dp cfg (a / b)))"
| "bn_div cfg (Fin a) _ = Fin 0"
| "bn_div cfg x (Fin b) = bn_signed_infinity (bn_sign x * (if b < 0 then - 1 else 1))"
| "bn_div cfg _ _ = NaN"

text \<open>
  The comparisons \<^verbatim>\<open>x.gt(y)\<close>, \<^verbatim>\<open>x.eq(y)\<close> and \<^verbatim>\<open>x.lte(y)\<close>. Each is false when an operand
  is NaN.
\<close>

fun bn_gt :: "BigNumber \<Rightarrow> BigNumber \<Rightarrow> bool" where
  "bn_gt NaN _ = False"
| "bn_gt _ NaN = False"
| "bn_gt (Fin a) (Fin b) = (b < a)"
| "bn_gt PosInfinity y = (y \<noteq> PosInfinity)"
| "bn_gt NegInfinity _ = False"
| "bn_gt (Fin a) y = (y = NegInfinity)"

fun bn_eq :: "BigNumber \<Rightarrow> BigNumber \<Rightarrow> bool" where
  "bn_eq NaN _ = False"
| "bn_eq _ NaN = False"
| "bn_eq x y = (x = y)"

definition bn_lte :: "BigNumber \<Rightarrow> BigNumber \<Rightarrow> bool" where
  "bn_lte x y \<longleftrightarrow> x \<noteq> NaN \<and> y \<noteq> NaN \<and> \<not> bn_gt x y"

section \<open>Reading a decimal text\<close>

text \<open>
  \<^verbatim>\<open>new BigNumber(text)\<close>. A text is a list of code units below 256. The library reads
  an optional minus sign, digits with an optional decimal point, and an optional
  exponent; failing that it drops the white space around the text and a leading plus
  sign and reads \<^verbatim>\<open>Infinity\<close>, \<^verbatim>\<open>NaN\<close> or a decimal again. Every other text is NaN (the
  library raises nothing unless its debug switch is on). A text with a radix prefix
  (\<^verbatim>\<open>0x\<close>, \<^verbatim>\<open>0b\<close>, \<^verbatim>\<open>0o\<close>), which the library reads in that radix, is read as NaN here:
  the component holds only texts printed from numbers.
\<close>

definition is_digit :: "char \<Rightarrow> bool" where
  "is_digit c \<longleftrightarrow> 48 \<le> (of_char c :: nat) \<and> (of_char c :: nat) \<le> 57"

definition digit_value :: "char \<Rightarrow> int" where
  "digit_value c = int (of_char c) - 48"

fun digits_value :: "int \<Rightarrow> string \<Rightarrow> int" where
  "digits_value acc [] = acc"
| "digits_value acc (c # cs) = digits_value (10 * acc + digit_value c) cs"

definition is_space :: "char \<Rightarrow> bool" where
  "is_space c \<longleftrightarrow> (of_char c :: nat) \<in> {9, 10, 11, 12, 13, 32, 160}"

definition is_word_char :: "char \<Rightarrow> bool" where
  "is_word_char c \<longleftrightarrow>
     is_digit c \<or> c = CHR ''_''
     \<or> (65 \<le> (of_char c :: nat) \<and> (of_char c :: nat) \<le> 90)
     \<or> (97 \<le> (of_char c :: nat) \<and> (of_char c :: nat) \<le> 122)"

definition is_exponent_mark :: "char \<Rightarrow> bool" where
  "is_exponent_mark c \<longleftrightarrow> c = CHR ''e'' \<or> c = CHR ''E''"

text \<open>The exponent part after the mark: an optional sign and at least one digit.\<close>

definition read_exponent :: "string \<Rightarrow> int option" where
  "read_exponent s =
     (let neg = (s \<noteq> [] \<and> hd s = CHR ''-'');
          ds = (if s \<noteq> [] \<and> (hd s = CHR ''-'' \<or> hd s = CHR ''+'') then tl s else s)
      in if ds \<noteq> [] \<and> list_all is_digit ds
         then Some ((if neg then - 1 else 1) * digits_value 0 ds) else None)"

text \<open>
  The mantissa: digits, then possibly a point and digits, with a digit on at least one
  side of a point, or no point and at least one digit. The result is the digits read
  as an integer and the number of digits after the point.
\<close>

definition read_mantissa :: "string \<Rightarrow> (int \<times> nat) option" where
  "read_mantissa s =
     (let ip = takeWhile is_digit s; r = dropWhile is_digit s
      in if r = [] then (if ip = [] then None else Some (digits_value 0 ip, 0))
         else if hd r = CHR ''.'' \<and> list_all is_digit (tl r) \<and> (ip \<noteq> [] \<or> tl r \<noteq> [])
         then Some (digits_value 0 (ip @ tl r), length (tl r))
         else None)"

definition read_decimal :: "string \<Rightarrow> rat option" where
  "read_decimal s =
     (let neg = (s \<noteq> [] \<and> hd s = CHR ''-'');
          body = (if neg then tl s else s);
          m = takeWhile (\<lambda>c. \<not> is_exponent_mark c) body;
          r = dropWhile (\<lambda>c. \<not> is_exponent_mark c) body;
          ex = (if r = [] then Some 0 else read_exponent (tl r))
      in case (read_mantissa m, ex) of
           (Some (d, k), Some e) \<Rightarrow>
             Some ((if neg then - 1 else 1) * of_int d * 10 powi (e - int k))
         | _ \<Rightarrow> None)"

definition strip_whitespaceOrPlus :: "string \<Rightarrow> string" where
  "strip_whitespaceOrPlus s =
     (let a = dropWhile is_space s;
          b = (case a of
                 c # d # _ \<Rightarrow> if c = CHR ''+'' \<and> (is_word_char d \<or> d = CHR ''.'') then tl a else a
               | _ \<Rightarrow> a)
      in rev (dropWhile is_space (rev b)))"

definition BigNumber_of_string :: "string \<Rightarrow> BigNumber" where
  "BigNumber_of_string s =
     (case read_decimal s of
        Some q \<Rightarrow> Fin q
      | None \<Rightarrow>
          (let t = strip_whitespaceOrPlus s
           in if t = ''Infinity'' then PosInfinity
              else if t = ''-Infinity'' then NegInfinity
              else if t = ''NaN'' \<or> t = ''-NaN'' then NaN
              else if t \<noteq> s then (case read_decimal t of Some q \<Rightarrow> Fin q | None \<Rightarrow> NaN)
              else NaN))"

section \<open>The numbers of JavaScript\<close>

text \<open>
  A JavaScript number is NaN, an infinity or a double; the model keeps a double as the
  rational it is, zero without a sign. \<open>to_double\<close> is the double nearest to a rational:
  53 significant bits, ties to the even neighbour, subnormal below \<open>2^-1022\<close>, an
  infinity from \<open>2^1024\<close> on.
\<close>

datatype number = Number_NaN | Number_PosInfinity | Number_NegInfinity | Number rat

text \<open>For \<open>q > 0\<close>, the integer \<open>l\<close> with \<open>2^l \<le> q < 2^(l+1)\<close>.\<close>

definition floor_log2 :: "rat \<Rightarrow> int" where
  "floor_log2 q =
     (if 1 \<le> q then bitlen \<lfloor>q\<rfloor> - 1
      else (let l = 1 - bitlen \<lfloor>1 / q\<rfloor> in if 2 powi l \<le> q then l else l - 1))"

definition to_double :: "rat \<Rightarrow> number" where
  "to_double q =
     (if q = 0 then Number 0
      else
        (let e = max (floor_log2 \<bar>q\<bar> - 52) (- 1074);
             m = round_half_even (\<bar>q\<bar> / 2 powi e);
             v = of_int m * 2 powi e
         in if 2 ^ 1024 \<le> v
            then (if q < 0 then Number_NegInfinity else Number_PosInfinity)
            else Number (if q < 0 then - v else v)))"

text \<open>\<^verbatim>\<open>x.toNumber()\<close>: the double nearest to the decimal.\<close>

fun toNumber :: "BigNumber \<Rightarrow> number" where
  "toNumber NaN = Number_NaN"
| "toNumber PosInfinity = Number_PosInfinity"
| "toNumber NegInfinity = Number_NegInfinity"
| "toNumber (Fin q) = to_double q"

fun Math_floor :: "number \<Rightarrow> number" where
  "Math_floor (Number q) = Number (of_int \<lfloor>q\<rfloor>)"
| "Math_floor x = x"

text \<open>The comparison \<^verbatim>\<open>x < y\<close> of two numbers, false when one is NaN.\<close>

fun number_lt :: "number \<Rightarrow> number \<Rightarrow> bool" where
  "number_lt Number_NaN _ = False"
| "number_lt _ Number_NaN = False"
| "number_lt (Number a) (Number b) = (a < b)"
| "number_lt Number_NegInfinity y = (y \<noteq> Number_NegInfinity)"
| "number_lt Number_PosInfinity _ = False"
| "number_lt (Number a) y = (y = Number_PosInfinity)"

text \<open>A number in a condition counts as true unless it is NaN or zero.\<close>

fun truthy :: "number \<Rightarrow> bool" where
  "truthy Number_NaN = False"
| "truthy (Number q) = (q \<noteq> 0)"
| "truthy _ = True"

text \<open>
  \<^verbatim>\<open>parseInt(text, 10)\<close>: skip leading white space, read an optional sign, then the
  longest run of digits; NaN when there is no digit, else the double nearest to the
  integer read. (For more than 20 significant digits the language lets an implementation
  read the digits after the 20th as zeros; the model reads them all.)
\<close>

definition parseInt10 :: "string \<Rightarrow> number" where
  "parseInt10 s =
     (let t = dropWhile is_space s;
          neg = (t \<noteq> [] \<and> hd t = CHR ''-'');
          u = (if t \<noteq> [] \<and> (hd t = CHR ''-'' \<or> hd t = CHR ''+'') then tl t else t);
          z = takeWhile is_digit u
      in if z = [] then Number_NaN
         else to_double ((if neg then - 1 else 1) * of_int (digits_value 0 z)))"

text \<open>
  \<^verbatim>\<open>new BigNumber(x)\<close> for a number \<open>x\<close>. The library reads the text that JavaScript
  prints for \<open>x\<close>. For a whole number below \<open>2^53\<close> in magnitude that text is its digits,
  so the value is kept; the same holds for every double whose shortest printed form is
  exact. For the other doubles the printed digits stop early and the value read differs
  from the double beyond its 17th digit; the model keeps the double's value there too,
  and the statements below about parsed input are made for whole numbers below \<open>2^53\<close>.
\<close>

fun BigNumber_of_number :: "number \<Rightarrow> BigNumber" where
  "BigNumber_of_number Number_NaN = NaN"
| "BigNumber_of_number Number_PosInfinity = PosInfinity"
| "BigNumber_of_number Number_NegInfinity = NegInfinity"
| "BigNumber_of_number (Number q) = Fin q"

section \<open>Printing a decimal\<close>

definition digit_char :: "int \<Rightarrow> char" where
  "digit_char d = ''0123456789'' ! nat d"

function digits_of :: "int \<Rightarrow> string" where
  "digits_of n = (if n < 10 then [digit_char n] else digits_of (n div 10) @ [digit_char (n mod 10)])"
  by pat_completeness auto
termination
  by (relation "measure nat") auto

declare digits_of.simps [simp del]

text \<open>
  The number of decimals of a decimal fraction: the least \<open>k\<close> with \<open>q * 10^k\<close> whole. The
  search is cut off at the bit length of the denominator, which a decimal fraction
  never reaches.
\<close>

fun count_decimals :: "nat \<Rightarrow> rat \<Rightarrow> nat" where
  "count_decimals 0 q = 0"
| "count_decimals (Suc fuel) q = (if is_int q then 0 else Suc (count_decimals fuel (10 * q)))"

definition decimals :: "rat \<Rightarrow> nat" where
  "decimals q = count_decimals (nat (bitlen (snd (quotient_of q)))) q"

text \<open>
  The significant digits of a finite value without trailing zeros, and the exponent of
  its first digit.
\<close>

definition coefficient :: "rat \<Rightarrow> string \<times> int" where
  "coefficient q =
     (let k = decimals q;
          ds = digits_of \<lfloor>\<bar>q\<bar> * 10 ^ k\<rfloor>;
          c = rev (dropWhile (\<lambda>x. x = CHR ''0'') (rev ds))
      in (if c = [] then ''0'' else c, int (length ds) - 1 - int k))"

definition toFixedPoint :: "string \<Rightarrow> int \<Rightarrow> string" where
  "toFixedPoint c e =
     (if e < 0 then ''0.'' @ replicate (nat (- e - 1)) CHR ''0'' @ c
      else if int (length c) < e + 1 then c @ replicate (nat (e + 1 - int (length c))) CHR ''0''
      else if e + 1 < int (length c) then take (nat (e + 1)) c @ ''.'' @ drop (nat (e + 1)) c
      else c)"

definition toExponential :: "string \<Rightarrow> int \<Rightarrow> string" where
  "toExponential c e =
     (if 1 < length c then hd c # ''.'' @ tl c else c)
     @ (if e < 0 then ''e-'' else ''e+'') @ digits_of \<bar>e\<bar>"

text \<open>\<^verbatim>\<open>x.toString()\<close>.\<close>

fun BigNumber_toString :: "config \<Rightarrow> BigNumber \<Rightarrow> string" where
  "BigNumber_toString cfg NaN = ''NaN''"
| "BigNumber_toString cfg PosInfinity = ''Infinity''"
| "BigNumber_toString cfg NegInfinity = ''-Infinity''"
| "BigNumber_toString cfg (Fin q) =
     (let (c, e) = coefficient q;
          str = (if e \<le> TO_EXP_NEG cfg \<or> TO_EXP_POS cfg \<le> e then toExponential c e
                 else toFixedPoint c e)
      in if q < 0 then CHR ''-'' # str else str)"

section \<open>The component: what it is given and what it holds\<close>

text \<open>
  What the component reads from its hooks: the round's data (\<^verbatim>\<open>useLottery\<close>), the
  caller's token balance and whether its query has succeeded (\<^verbatim>\<open>useTokenBalance\<close>),
  the two flags of the approve-and-confirm hook, and the ticket numbers the ticket
  reducer would submit, of which the component reads only the count.
\<close>

record props =
  maxNumberTicketsPerBuyOrClaim :: BigNumber
  priceTicketInCake :: BigNumber
  discountDivisor :: BigNumber
  userCake :: BigNumber
  hasFetchedBalance :: bool
  isApproved :: bool
  isConfirmed :: bool
  ticketsForPurchase_length :: nat

text \<open>
  A cost line holds either the text \<^verbatim>\<open>'0'\<close> or the text that \<^verbatim>\<open>getFullDisplayBalance\<close>
  makes of an amount. That formatter lives in \<^verbatim>\<open>utils/formatBalance\<close>, outside the file
  under study; the model records the amount handed to it, with the number of token
  decimals and of displayed decimals.
\<close>

datatype cost_text = Text_empty | Text_0 | FullDisplayBalance BigNumber nat "nat option"

text \<open>The amount a cost line shows; the empty text is no number.\<close>

fun amount_shown :: "cost_text \<Rightarrow> BigNumber" where
  "amount_shown Text_empty = NaN"
| "amount_shown Text_0 = Fin 0"
| "amount_shown (FullDisplayBalance x _ _) = x"

record state =
  ticketsToBuy :: string
  discountValue :: cost_text
  totalCost :: cost_text
  ticketCostBeforeDiscount :: cost_text
  maxPossibleTicketPurchase :: BigNumber
  maxTicketPurchaseExceeded :: bool
  userNotEnoughCake :: bool

text \<open>The state after the \<^verbatim>\<open>useState\<close> calls.\<close>

definition initial_state :: state where
  "initial_state =
     \<lparr>ticketsToBuy = ''0'', discountValue = Text_empty, totalCost = Text_empty,
      ticketCostBeforeDiscount = Text_empty, maxPossibleTicketPurchase = BIG_ZERO,
      maxTicketPurchaseExceeded = False, userNotEnoughCake = False\<rparr>"

section \<open>The purchase-quantity validator\<close>

definition limitNumberByMaxTicketsPerBuy :: "props \<Rightarrow> BigNumber \<Rightarrow> BigNumber" where
  "limitNumberByMaxTicketsPerBuy p number =
     (if bn_gt number (maxNumberTicketsPerBuyOrClaim p) then maxNumberTicketsPerBuyOrClaim p
      else number)"

definition getMaxPossiblePurchase :: "config \<Rightarrow> props \<Rightarrow> state \<Rightarrow> state" where
  "getMaxPossiblePurchase cfg p s =
     (let maxBalancePurchase = bn_div cfg (userCake p) (priceTicketInCake p);
          maxPurchase = limitNumberByMaxTicketsPerBuy p maxBalancePurchase
      in s\<lparr>userNotEnoughCake := (hasFetchedBalance p \<and> bn_eq maxPurchase (Fin 0)),
           maxPossibleTicketPurchase := maxPurchase\<rparr>)"

section \<open>The discount pricing\<close>

definition getCostAfterDiscount :: "config \<Rightarrow> props \<Rightarrow> BigNumber \<Rightarrow> BigNumber" where
  "getCostAfterDiscount cfg p numberOfTicketsToBuy =
     bn_div cfg
       (bn_times (bn_times (priceTicketInCake p) numberOfTicketsToBuy)
          (bn_minus (bn_plus (discountDivisor p) (Fin 1)) numberOfTicketsToBuy))
       (discountDivisor p)"

definition costBeforeDiscount :: "props \<Rightarrow> BigNumber \<Rightarrow> BigNumber" where
  "costBeforeDiscount p numberOfTicketsToBuy = bn_times (priceTicketInCake p) numberOfTicketsToBuy"

definition discountBeingApplied :: "config \<Rightarrow> props \<Rightarrow> BigNumber \<Rightarrow> BigNumber" where
  "discountBeingApplied cfg p numberOfTicketsToBuy =
     bn_minus (costBeforeDiscount p numberOfTicketsToBuy) (getCostAfterDiscount cfg p numberOfTicketsToBuy)"

text \<open>The effect that recomputes the three cost lines from \<^verbatim>\<open>ticketsToBuy\<close>.\<close>

definition updateCosts :: "config \<Rightarrow> props \<Rightarrow> state \<Rightarrow> state" where
  "updateCosts cfg p s =
     (let numberOfTicketsToBuy = BigNumber_of_string (ticketsToBuy s);
          after = getCostAfterDiscount cfg p numberOfTicketsToBuy;
          before = costBeforeDiscount p numberOfTicketsToBuy;
          discount = discountBeingApplied cfg p numberOfTicketsToBuy
      in s\<lparr>ticketCostBeforeDiscount :=
             (if bn_gt before (Fin 0) then FullDisplayBalance before 18 None else Text_0),
           totalCost :=
             (if bn_gt after (Fin 0) then FullDisplayBalance after 18 None else Text_0),
           discountValue :=
             (if bn_gt discount (Fin 0) then FullDisplayBalance discount 18 (Some 5) else Text_0)\<rparr>)"

section \<open>The percentage shortcuts\<close>

definition getNumTicketsByPercentage :: "config \<Rightarrow> state \<Rightarrow> number \<Rightarrow> number" where
  "getNumTicketsByPercentage cfg s percentage =
     (let percentageOfMaxTickets =
            (if bn_gt (maxPossibleTicketPurchase s) (Fin 0)
             then bn_times (bn_div cfg (maxPossibleTicketPurchase s) (BigNumber_of_number (Number 100)))
                    (BigNumber_of_number percentage)
             else BIG_ZERO)
      in Math_floor (toNumber percentageOfMaxTickets))"

definition tenPercentOfBalance :: "config \<Rightarrow> state \<Rightarrow> number" where
  "tenPercentOfBalance cfg s = getNumTicketsByPercentage cfg s (Number 10)"

definition twentyFivePercentOfBalance :: "config \<Rightarrow> state \<Rightarrow> number" where
  "twentyFivePercentOfBalance cfg s = getNumTicketsByPercentage cfg s (Number 25)"

definition fiftyPercentOfBalance :: "config \<Rightarrow> state \<Rightarrow> number" where
  "fiftyPercentOfBalance cfg s = getNumTicketsByPercentage cfg s (Number 50)"

definition oneHundredPercentOfBalance :: "config \<Rightarrow> state \<Rightarrow> number" where
  "oneHundredPercentOfBalance cfg s = getNumTicketsByPercentage cfg s (Number 100)"

text \<open>The \<^verbatim>\<open>disabled\<close> property of a \<^verbatim>\<open>NumTicketsToBuyButton\<close> that offers \<open>count\<close> tickets.\<close>

definition NumTicketsToBuyButton_disabled :: "props \<Rightarrow> number \<Rightarrow> bool" where
  "NumTicketsToBuyButton_disabled p count \<longleftrightarrow>
     \<not> hasFetchedBalance p \<or> number_lt count (Number 1)"

section \<open>The input handler\<close>

definition getCakeValueOfTickets :: "props \<Rightarrow> BigNumber \<Rightarrow> BigNumber" where
  "getCakeValueOfTickets p numberOfTickets = bn_times (priceTicketInCake p) numberOfTickets"

definition handleInputChange :: "config \<Rightarrow> props \<Rightarrow> state \<Rightarrow> string \<Rightarrow> state" where
  "handleInputChange cfg p s input =
     (let inputAsInt = parseInt10 input;
          inputAsBN = BigNumber_of_number inputAsInt;
          limitedNumberTickets = limitNumberByMaxTicketsPerBuy p inputAsBN;
          cakeValueOfInput = getCakeValueOfTickets p limitedNumberTickets;
          s' = (if bn_gt cakeValueOfInput (userCake p) then s\<lparr>userNotEnoughCake := True\<rparr>
                else if bn_eq limitedNumberTickets (maxPossibleTicketPurchase s)
                then s\<lparr>maxTicketPurchaseExceeded := True\<rparr>
                else s\<lparr>userNotEnoughCake := False, maxTicketPurchaseExceeded := False\<rparr>)
      in s'\<lparr>ticketsToBuy :=
              (if truthy inputAsInt then BigNumber_toString cfg limitedNumberTickets else ''0'')\<rparr>)"

section \<open>The guard of the purchase\<close>

definition disableBuying :: "props \<Rightarrow> state \<Rightarrow> bool" where
  "disableBuying p s \<longleftrightarrow>
     \<not> isApproved p
     \<or> isConfirmed p
     \<or> userNotEnoughCake s
     \<or> ticketsToBuy s = []
     \<or> bn_lte (BigNumber_of_string (ticketsToBuy s)) (Fin 0)
     \<or> Number (of_nat (ticketsForPurchase_length p)) \<noteq> parseInt10 (ticketsToBuy s)"

section \<open>The allowance check\<close>

text \<open>
  \<^verbatim>\<open>onRequiresApproval\<close> awaits \<^verbatim>\<open>cakeContract.allowance\<close>, which yields an unsigned
  256-bit amount or throws; \<open>Inl\<close> is the throw. The answer \<open>True\<close> tells the hook
  \<^verbatim>\<open>useApproveConfirmTransaction\<close> that the spender is already approved; on \<open>False\<close> the
  caller has to approve first.
\<close>

datatype error = Thrown

text \<open>
  Modelled from the spec: \<^verbatim>\<open>ethersToBigNumber\<close> (\<^verbatim>\<open>utils/bigNumber\<close>) is not among the
  sources under study. The specification has \<^verbatim>\<open>allowance\<close> return a Money amount, so the
  conversion keeps the value.
\<close>

definition ethersToBigNumber :: "256 word \<Rightarrow> BigNumber" where
  "ethersToBigNumber response = Fin (of_nat (unat response))"

definition onRequiresApproval :: "error + 256 word \<Rightarrow> bool" where
  "onRequiresApproval allowance =
     (case allowance of
        Inr response \<Rightarrow> bn_gt (ethersToBigNumber response) (Fin 0)
      | Inl e \<Rightarrow> False)"

section \<open>Input texts\<close>

text \<open>
  The texts at whose start \<^verbatim>\<open>parseInt\<close> finds no whole number: after its leading white
  space and one optional sign, the text does not go on with a digit. The empty text is
  one of them.
\<close>

definition no_leading_digits :: "string \<Rightarrow> bool" where
  "no_leading_digits s =
     (let t = dropWhile is_space s;
          u = (if t \<noteq> [] \<and> (hd t = CHR ''-'' \<or> hd t = CHR ''+'') then tl t else t)
      in u = [] \<or> \<not> is_digit (hd u))"

text \<open>
  The specification speaks of non-numeric or empty input. A text counts as numeric here
  when the whole of it is a number for the reader that the component applies to its
  quantity text, \<^verbatim>\<open>new BigNumber\<close>: a decimal with an optional sign, fraction and
  exponent, white space around it allowed, or an infinity. Every other text, the empty
  one included, is non-numeric; so is a text that starts with digits and goes on with
  letters.
\<close>

definition non_numeric :: "string \<Rightarrow> bool" where
  "non_numeric s \<longleftrightarrow> BigNumber_of_string s = NaN"

section \<open>Rounding a quotient\<close>

text \<open>
  Every rounding mode leaves an integer alone, keeps a value on its side of an integer,
  and moves it by less than one.
\<close>

lemma round_int_of_int: "round_int m (of_int k) = k"
  by (cases m) (simp_all add: round_half_even_def, linarith+)

lemma round_int_le: "q \<le> of_int k \<Longrightarrow> round_int m q \<le> k"
  by (cases m) (auto simp: round_half_even_def Let_def floor_le_iff ceiling_le_iff)

lemma round_int_ge: "of_int k \<le> q \<Longrightarrow> k \<le> round_int m q"
  by (cases m) (auto simp: round_half_even_def Let_def le_floor_iff le_ceiling_iff, linarith+)

lemma round_int_err: "\<bar>of_int (round_int m q) - q\<bar> < 1"
  by (cases m) (auto simp: round_half_even_def Let_def, linarith+)

lemma round_dp_exact:
  assumes "is_int (q * 10 ^ DECIMAL_PLACES cfg)"
  shows "round_dp cfg q = q"
proof -
  from assms obtain k where k: "q * 10 ^ DECIMAL_PLACES cfg = of_int k"
    unfolding is_int_def by metis
  have "round_dp cfg q = of_int k / 10 ^ DECIMAL_PLACES cfg"
    by (simp add: round_dp_def k round_int_of_int)
  also have "\<dots> = q" using k by (simp add: field_simps)
  finally show ?thesis .
qed

lemma is_int_of_int [simp]: "is_int (of_int k)"
  by (simp add: is_int_def)

lemma is_int_of_int_times_power: "is_int (of_int k * 10 ^ n)"
proof -
  have "(of_int k :: rat) * 10 ^ n = of_int (k * 10 ^ n)" by simp
  then show ?thesis by (simp only: is_int_of_int)
qed

lemma round_dp_of_int: "round_dp cfg (of_int k) = of_int k"
  by (rule round_dp_exact) (rule is_int_of_int_times_power)

lemma round_dp_le:
  assumes "q \<le> r" "is_int (r * 10 ^ DECIMAL_PLACES cfg)"
  shows "round_dp cfg q \<le> r"
proof -
  from assms(2) obtain k where k: "r * 10 ^ DECIMAL_PLACES cfg = of_int k"
    unfolding is_int_def by metis
  have "q * 10 ^ DECIMAL_PLACES cfg \<le> of_int k"
    using assms(1) k by (metis mult_right_mono zero_le_numeral zero_le_power)
  then have "round_int (ROUNDING_MODE cfg) (q * 10 ^ DECIMAL_PLACES cfg) \<le> k"
    by (rule round_int_le)
  then have "round_dp cfg q \<le> of_int k / 10 ^ DECIMAL_PLACES cfg"
    by (simp add: round_dp_def divide_right_mono)
  also have "\<dots> = r" using k by (simp add: field_simps)
  finally show ?thesis .
qed

lemma round_dp_ge:
  assumes "r \<le> q" "is_int (r * 10 ^ DECIMAL_PLACES cfg)"
  shows "r \<le> round_dp cfg q"
proof -
  from assms(2) obtain k where k: "r * 10 ^ DECIMAL_PLACES cfg = of_int k"
    unfolding is_int_def by metis
  have "of_int k \<le> q * 10 ^ DECIMAL_PLACES cfg"
    using assms(1) k by (metis mult_right_mono zero_le_numeral zero_le_power)
  then have "k \<le> round_int (ROUNDING_MODE cfg) (q * 10 ^ DECIMAL_PLACES cfg)"
    by (rule round_int_ge)
  then have "of_int k / 10 ^ DECIMAL_PLACES cfg \<le> round_dp cfg q"
    by (simp add: round_dp_def divide_right_mono)
  moreover have "of_int k / 10 ^ DECIMAL_PLACES cfg = r" using k by (simp add: field_simps)
  ultimately show ?thesis by simp
qed


lemma round_dp_err: "\<bar>round_dp cfg q - q\<bar> < 1 / 10 ^ DECIMAL_PLACES cfg"
proof -
  let ?s = "(10::rat) ^ DECIMAL_PLACES cfg"
  have pos: "0 < ?s" by simp
  have "\<bar>of_int (round_int (ROUNDING_MODE cfg) (q * ?s)) - q * ?s\<bar> < 1"
    by (rule round_int_err)
  then have "\<bar>of_int (round_int (ROUNDING_MODE cfg) (q * ?s)) - q * ?s\<bar> / ?s < 1 / ?s"
    using pos by (simp add: divide_strict_right_mono)
  moreover have "\<bar>of_int (round_int (ROUNDING_MODE cfg) (q * ?s)) - q * ?s\<bar> / ?s = \<bar>round_dp cfg q - q\<bar>"
    using pos by (simp add: round_dp_def abs_div_pos diff_divide_distrib)
  ultimately show ?thesis by simp
qed

lemma round_dp_zero [simp]: "round_dp cfg 0 = 0"
  using round_dp_of_int [of cfg 0] by simp

lemma round_dp_nonneg: "0 \<le> q \<Longrightarrow> 0 \<le> round_dp cfg q"
  using round_dp_ge [of 0 q cfg] by (simp add: is_int_def)

lemma round_dp_nonpos: "q \<le> 0 \<Longrightarrow> round_dp cfg q \<le> 0"
  using round_dp_le [of q 0 cfg] by (simp add: is_int_def)


section \<open>Evaluating at given numbers\<close>

lemma is_intI: "q = of_int k \<Longrightarrow> is_int q"
  by (simp add: is_int_def)

lemma round_dp_half_up_eval:
  assumes "ROUNDING_MODE cfg = ROUND_HALF_UP" and "0 \<le> q"
    and "of_int k \<le> q * 10 ^ DECIMAL_PLACES cfg + 1 / 2"
    and "q * 10 ^ DECIMAL_PLACES cfg + 1 / 2 < of_int k + 1"
  shows "round_dp cfg q = of_int k / 10 ^ DECIMAL_PLACES cfg"
proof -
  have "0 \<le> q * 10 ^ DECIMAL_PLACES cfg"
    using assms(2) by simp
  moreover have "\<lfloor>q * 10 ^ DECIMAL_PLACES cfg + 1 / 2\<rfloor> = k"
    using assms(3,4) by (simp add: floor_eq_iff)
  ultimately show ?thesis
    by (simp add: round_dp_def assms(1))
qed

lemma round_dp_exact_eval:
  assumes "q * 10 ^ DECIMAL_PLACES cfg = of_int k"
  shows "round_dp cfg q = q"
  by (rule round_dp_exact) (rule is_intI [OF assms])

lemma round_half_even_eval:
  assumes "of_int m - 1 / 2 < x" and "x < of_int m + 1 / 2"
  shows "round_half_even x = m"
proof (cases "of_int m \<le> x")
  case True
  then have "\<lfloor>x\<rfloor> = m"
    using assms(2) by (simp add: floor_eq_iff)
  then show ?thesis
    using assms(2) by (simp add: round_half_even_def Let_def)
next
  case False
  then have "\<lfloor>x\<rfloor> = m - 1"
    using assms(1) by (simp add: floor_eq_iff)
  then show ?thesis
    using assms(1) by (simp add: round_half_even_def Let_def)
qed

lemma floor_log2_below_one_eval:
  assumes "0 < q" and "q < 1" and "\<lfloor>1 / q\<rfloor> = n" and "bitlen n = b" and "q < 2 powi (1 - b)"
  shows "floor_log2 q = - b"
  using assms by (simp add: floor_log2_def Let_def)

lemma floor_log2_from_one_eval:
  assumes "1 \<le> q" and "\<lfloor>q\<rfloor> = n" and "bitlen n = b"
  shows "floor_log2 q = b - 1"
  using assms by (simp add: floor_log2_def)

lemma to_double_eval:
  assumes "0 < q" and "floor_log2 q = l" and "- 1074 \<le> l - 52"
    and "round_half_even (q / 2 powi (l - 52)) = m"
    and "of_int m * 2 powi (l - 52) = v" and "v < 2 ^ 1024"
  shows "to_double q = Number v"
proof -
  have a: "\<bar>q\<bar> = q"
    using assms(1) by simp
  have e: "max (floor_log2 q - 52) (- 1074) = l - 52"
    using assms(2,3) by (simp add: max_absorb1)
  have "\<not> 2 ^ 1024 \<le> v"
    using assms(6) by (simp only: not_le)
  then show ?thesis
    using assms(1,4,5) by (simp add: to_double_def Let_def a e del: power_numeral)
qed

lemma getCostAfterDiscount_finite:
  assumes "priceTicketInCake p = Fin a" and "discountDivisor p = Fin d" and "d \<noteq> 0"
  shows "getCostAfterDiscount cfg p (Fin n) = Fin (round_dp cfg (a * n * (d + 1 - n) / d))"
  using assms by (simp add: getCostAfterDiscount_def bn_minus_def)

lemma costBeforeDiscount_finite:
  assumes "priceTicketInCake p = Fin a"
  shows "costBeforeDiscount p (Fin n) = Fin (a * n)"
  using assms by (simp add: costBeforeDiscount_def)

lemma updateCosts_lines:
  "ticketCostBeforeDiscount (updateCosts cfg p s) =
     (let x = costBeforeDiscount p (BigNumber_of_string (ticketsToBuy s))
      in if bn_gt x (Fin 0) then FullDisplayBalance x 18 None else Text_0)"
  "totalCost (updateCosts cfg p s) =
     (let x = getCostAfterDiscount cfg p (BigNumber_of_string (ticketsToBuy s))
      in if bn_gt x (Fin 0) then FullDisplayBalance x 18 None else Text_0)"
  "discountValue (updateCosts cfg p s) =
     (let x = discountBeingApplied cfg p (BigNumber_of_string (ticketsToBuy s))
      in if bn_gt x (Fin 0) then FullDisplayBalance x 18 (Some 5) else Text_0)"
  by (simp_all add: updateCosts_def Let_def)

lemma getMaxPossiblePurchase_finite:
  assumes "userCake p = Fin b" and "priceTicketInCake p = Fin a" and "a \<noteq> 0"
    and "maxNumberTicketsPerBuyOrClaim p = Fin c"
  shows "maxPossibleTicketPurchase (getMaxPossiblePurchase cfg p s)
           = Fin (min (round_dp cfg (b / a)) c)"
    and "userNotEnoughCake (getMaxPossiblePurchase cfg p s)
           = (hasFetchedBalance p \<and> min (round_dp cfg (b / a)) c = 0)"
  using assms
  by (auto simp: getMaxPossiblePurchase_def limitNumberByMaxTicketsPerBuy_def Let_def min_def)

lemma limitNumberByMaxTicketsPerBuy_finite:
  assumes "maxNumberTicketsPerBuyOrClaim p = Fin c"
  shows "limitNumberByMaxTicketsPerBuy p (Fin x) = Fin (min x c)"
  using assms by (simp add: limitNumberByMaxTicketsPerBuy_def min_def)

lemma round_half_even_of_int: "round_half_even (of_int k) = k"
  using round_int_of_int [of ROUND_HALF_EVEN k] by simp

lemma to_double_of_pos_int:
  assumes "0 < n" and "n < 2 ^ 53"
  shows "to_double (of_int n) = Number (of_int n)"
proof -
  define b where "b = bitlen n"
  define j where "j = nat (53 - b)"
  define ex where "ex = b - 1 - 52"
  have b1: "1 \<le> b"
    using assms(1) bitlen_nonneg [of n] bitlen_eq_zero_iff [of n] unfolding b_def by linarith
  have b53: "b \<le> 53"
    using assms(2) unfolding b_def by (simp add: bitlen_le_iff_power)
  have e: "ex = - int j"
    using b53 by (simp add: j_def ex_def)
  have fl: "floor_log2 (of_int n) = b - 1"
    using assms(1) by (simp add: floor_log2_def b_def)
  have pw: "(2::rat) powi ex = 1 / 2 ^ j"
    unfolding e by (simp add: power_int_minus field_simps)
  have sc: "of_int n / (2::rat) powi ex = of_int (n * 2 ^ j)"
    unfolding pw by simp
  have m: "round_half_even (of_int n / 2 powi ex) = n * 2 ^ j"
    unfolding sc by (rule round_half_even_of_int)
  have v: "of_int (n * 2 ^ j) * (2::rat) powi ex = of_int n"
    unfolding pw by simp
  have "(of_int n :: rat) < 2 ^ 53"
    using assms(2) by (metis of_int_less_numeral_power_cancel_iff)
  also have "\<dots> \<le> 2 ^ 1024"
    by (rule power_increasing) simp_all
  finally have lt: "(of_int n :: rat) < 2 ^ 1024" .
  have lo: "- 1074 \<le> b - 1 - 52"
    using b1 by simp
  have pos: "(0::rat) < of_int n"
    using assms(1) by simp
  show ?thesis
    by (rule to_double_eval [OF pos fl lo m [unfolded ex_def] v [unfolded ex_def] lt])
qed

lemma to_double_minus:
  assumes "0 < q" and "to_double q = Number v"
  shows "to_double (- q) = Number (- v)"
  using assms by (auto simp: to_double_def Let_def split: if_splits)

lemma to_double_of_int:
  assumes "\<bar>k\<bar> < 2 ^ 53"
  shows "to_double (of_int k) = Number (of_int k)"
proof -
  consider "k = 0" | "0 < k" | "k < 0" by linarith
  then show ?thesis
  proof cases
    case 1
    then show ?thesis by (simp add: to_double_def)
  next
    case 2
    then show ?thesis using assms by (simp add: to_double_of_pos_int)
  next
    case 3
    then have "to_double (of_int (- k)) = Number (of_int (- k))"
      using assms by (intro to_double_of_pos_int) simp_all
    then have "to_double (- of_int (- k)) = Number (- of_int (- k))"
      using 3 by (intro to_double_minus) simp_all
    then show ?thesis by simp
  qed
qed

lemma to_double_numeral:
  "(numeral w :: int) < 2 ^ 53 \<Longrightarrow> to_double (numeral w) = Number (numeral w)"
  using to_double_of_int [of "numeral w"] by simp

lemma to_double_neg_numeral:
  "(numeral w :: int) < 2 ^ 53 \<Longrightarrow> to_double (- numeral w) = Number (- numeral w)"
  using to_double_of_int [of "- numeral w"] by simp

lemma to_double_zero_one: "to_double 0 = Number 0" "to_double 1 = Number 1"
  using to_double_of_int [of 0] to_double_of_int [of 1] by simp_all

lemmas parse_eval = parseInt10_def is_space_def is_digit_def digit_value_def Let_def
  to_double_numeral to_double_neg_numeral to_double_zero_one

lemma bitlen_1: "bitlen 1 = 1"
  by code_simp

lemmas print_eval = coefficient_def decimals_def bitlen_1 is_int_def digits_of.simps
  digit_char_def toFixedPoint_def toExponential_def Let_def eval_nat_numeral

text \<open>A whole number from \<open>2^53\<close> on stays at or above \<open>2^53\<close> as a double.\<close>

lemma round_half_even_ge:
  assumes "of_int k \<le> x"
  shows "k \<le> round_half_even x"
proof -
  have "k \<le> \<lfloor>x\<rfloor>"
    using assms by (simp add: le_floor_iff)
  then show ?thesis
    by (simp add: round_half_even_def Let_def)
qed

lemma to_double_large:
  assumes "2 ^ 53 \<le> n"
  shows "to_double (of_int n) = Number_PosInfinity
    \<or> (\<exists>v. to_double (of_int n) = Number v \<and> 2 ^ 53 \<le> v)"
proof -
  define b where "b = bitlen n"
  define j where "j = nat (b - 53)"
  have pos: "0 < n"
    using assms by (rule less_le_trans [rotated]) simp
  have b54: "54 \<le> b"
    using assms unfolding b_def by (simp add: bitlen_ge_iff_power)
  have j1: "1 \<le> j" and bj: "b - 1 - 52 = int j" and nj: "nat (b - 1) = j + 52"
    using b54 by (simp_all add: j_def)
  have fl: "floor_log2 (of_int n) = b - 1"
    using pos by (simp add: floor_log2_def b_def)
  have "2 ^ nat (b - 1) \<le> n"
    using bitlen_bounds [OF pos] unfolding b_def by simp
  then have "(2::rat) ^ (j + 52) \<le> of_int n"
    unfolding nj by (metis of_int_le_iff of_int_numeral of_int_power)
  then have "(2::rat) ^ 52 * 2 ^ j \<le> of_int n"
    by (simp add: power_add mult.commute)
  then have s: "of_int (2 ^ 52) \<le> (of_int n :: rat) / 2 ^ j"
    by (simp add: pos_le_divide_eq)
  define m where "m = round_half_even (of_int n / 2 ^ j)"
  have m: "2 ^ 52 \<le> m"
    unfolding m_def using s by (rule round_half_even_ge)
  have "(2::rat) ^ 53 = 2 ^ 52 * 2 ^ 1"
    by simp
  also have "\<dots> \<le> of_int m * 2 ^ j"
  proof (rule mult_mono)
    show "(2::rat) ^ 52 \<le> of_int m"
      using m by (metis of_int_le_iff of_int_numeral of_int_power)
    show "(2::rat) ^ 1 \<le> 2 ^ j"
      using j1 by (intro power_increasing) simp_all
    show "(0::rat) \<le> of_int m"
      using m by (simp add: order_trans [of 0 "2 ^ 52" m])
  qed simp
  finally have v: "(2::rat) ^ 53 \<le> of_int m * 2 ^ j" .
  have e: "max (floor_log2 \<bar>of_int n\<bar> - 52) (- 1074) = int j"
    using pos bj by (simp add: fl)
  have "to_double (of_int n) =
      (if 2 ^ 1024 \<le> of_int m * (2::rat) ^ j then Number_PosInfinity
       else Number (of_int m * 2 ^ j))"
    using pos unfolding to_double_def e by (simp add: Let_def m_def)
  with v show ?thesis
    by auto
qed

lemma to_double_minus_infinity:
  assumes "0 < q" and "to_double q = Number_PosInfinity"
  shows "to_double (- q) = Number_NegInfinity"
  using assms by (auto simp: to_double_def Let_def split: if_splits)

lemma to_double_small:
  assumes "n \<le> - (2 ^ 53)"
  shows "to_double (of_int n) = Number_NegInfinity
    \<or> (\<exists>v. to_double (of_int n) = Number v \<and> v \<le> - (2 ^ 53))"
proof -
  have p: "(0::rat) < of_int (- n)"
    using assms by (simp add: less_le_trans [of 0 "2 ^ 53" "- n"])
  have "2 ^ 53 \<le> - n"
    using assms by simp
  from to_double_large [OF this] show ?thesis
  proof
    assume "to_double (of_int (- n)) = Number_PosInfinity"
    from to_double_minus_infinity [OF p this] show ?thesis
      by simp
  next
    assume "\<exists>v. to_double (of_int (- n)) = Number v \<and> 2 ^ 53 \<le> v"
    then obtain v where v: "to_double (of_int (- n)) = Number v" "2 ^ 53 \<le> v"
      by blast
    from to_double_minus [OF p v(1)] v(2) show ?thesis
      by simp
  qed
qed

section \<open>Texts of whole numbers\<close>

text \<open>
  A whole number prints as its digits, with a minus sign when it is negative, as long as
  it stays below the exponent from which the library prints in exponential notation;
  both readers of the requested quantity read that text back as the number.
\<close>

lemma digit_char_props:
  assumes "0 \<le> d" and "d < 10"
  shows "is_digit (digit_char d)" and "digit_value (digit_char d) = d"
    and "\<not> is_space (digit_char d)" and "\<not> is_exponent_mark (digit_char d)"
    and "digit_char d \<noteq> CHR ''-''" and "digit_char d \<noteq> CHR ''+''"
    and "digit_char d = CHR ''0'' \<longleftrightarrow> d = 0"
proof -
  from assms have "d \<in> {0, 1, 2, 3, 4, 5, 6, 7, 8, 9}"
    by (simp, arith)
  then show "is_digit (digit_char d)" and "digit_value (digit_char d) = d"
    and "\<not> is_space (digit_char d)" and "\<not> is_exponent_mark (digit_char d)"
    and "digit_char d \<noteq> CHR ''-''" and "digit_char d \<noteq> CHR ''+''"
    and "digit_char d = CHR ''0'' \<longleftrightarrow> d = 0"
    by (auto simp: digit_char_def is_digit_def digit_value_def is_space_def
        is_exponent_mark_def)
qed

lemma digits_of_not_Nil: "digits_of n \<noteq> []"
  by (subst digits_of.simps) simp

lemma digits_of_all_digits:
  "0 \<le> n \<Longrightarrow> list_all is_digit (digits_of n)"
proof (induction n rule: digits_of.induct)
  case (1 n)
  show ?case
  proof (cases "n < 10")
    case True
    with 1(2) show ?thesis
      by (subst digits_of.simps) (simp add: digit_char_props)
  next
    case False
    then have "0 \<le> n div 10" "0 \<le> n mod 10" "n mod 10 < 10"
      using 1(2) by simp_all
    with 1(1) [OF False] False show ?thesis
      by (subst digits_of.simps) (simp add: digit_char_props)
  qed
qed

lemma digits_value_append:
  "digits_value acc (xs @ [c]) = 10 * digits_value acc xs + digit_value c"
  by (induction xs arbitrary: acc) simp_all

lemma digits_value_digits_of:
  "0 \<le> n \<Longrightarrow> digits_value 0 (digits_of n) = n"
proof (induction n rule: digits_of.induct)
  case (1 n)
  show ?case
  proof (cases "n < 10")
    case True
    with 1(2) show ?thesis
      by (subst digits_of.simps) (simp add: digit_char_props)
  next
    case False
    then have "0 \<le> n div 10" "0 \<le> n mod 10" "n mod 10 < 10"
      using 1(2) by simp_all
    with 1(1) [OF False] False show ?thesis
      by (subst digits_of.simps) (simp add: digits_value_append digit_char_props)
  qed
qed

lemma hd_digits_of:
  "0 \<le> n \<Longrightarrow> \<exists>d. 0 \<le> d \<and> d < 10 \<and> hd (digits_of n) = digit_char d"
proof (induction n rule: digits_of.induct)
  case (1 n)
  show ?case
  proof (cases "n < 10")
    case True
    with 1(2) show ?thesis
      by (subst digits_of.simps) auto
  next
    case False
    then have "0 \<le> n div 10"
      using 1(2) by simp
    with 1(1) [OF False] False show ?thesis
      by (subst digits_of.simps) (simp add: digits_of_not_Nil)
  qed
qed

lemma length_digits_of:
  "0 \<le> n \<Longrightarrow> n < 10 ^ m \<Longrightarrow> 0 < m \<Longrightarrow> length (digits_of n) \<le> m"
proof (induction n arbitrary: m rule: digits_of.induct)
  case (1 n)
  show ?case
  proof (cases "n < 10")
    case True
    with 1(4) show ?thesis
      by (subst digits_of.simps) simp
  next
    case False
    obtain k where m: "m = Suc k"
      using 1(4) by (cases m) auto
    have k: "0 < k"
      using False 1(3) m by (cases k) auto
    have "n div 10 < 10 ^ k"
      using 1(3) m by simp
    with 1(1) [OF False, of k] 1(2) k have "length (digits_of (n div 10)) \<le> k"
      by simp
    with False m show ?thesis
      by (subst digits_of.simps) simp
  qed
qed

lemma is_digit_not_other:
  assumes "is_digit c"
  shows "\<not> is_exponent_mark c" and "\<not> is_space c" and "c \<noteq> CHR ''-''" and "c \<noteq> CHR ''+''"
  using assms by (auto simp: is_digit_def is_exponent_mark_def is_space_def)

lemma takeWhile_all: "list_all P xs \<Longrightarrow> takeWhile P xs = xs"
  by (induction xs) simp_all

lemma dropWhile_all: "list_all P xs \<Longrightarrow> dropWhile P xs = []"
  by (induction xs) simp_all

lemma parseInt10_digits:
  assumes "ds \<noteq> []" and "list_all is_digit ds"
  shows "parseInt10 ds = to_double (of_int (digits_value 0 ds))"
    and "parseInt10 (CHR ''-'' # ds) = to_double (- of_int (digits_value 0 ds))"
proof -
  obtain c cs where ds: "ds = c # cs"
    using assms(1) by (cases ds) auto
  have c: "is_digit c" and cs: "list_all is_digit cs"
    using assms(2) by (simp_all add: ds)
  have t: "takeWhile is_digit cs = cs"
    using cs by (rule takeWhile_all)
  have m: "\<not> is_space CHR ''-''"
    by (simp add: is_space_def)
  show "parseInt10 ds = to_double (of_int (digits_value 0 ds))"
    by (simp add: parseInt10_def Let_def ds c t is_digit_not_other [OF c])
  show "parseInt10 (CHR ''-'' # ds) = to_double (- of_int (digits_value 0 ds))"
    by (simp add: parseInt10_def Let_def ds c t m)
qed

lemma takeWhile_append_stop:
  assumes "list_all P xs" and "ys = [] \<or> \<not> P (hd ys)"
  shows "takeWhile P (xs @ ys) = xs"
proof -
  have "takeWhile P ys = []"
    using assms(2) by (cases ys) auto
  with assms(1) show ?thesis
    by (induction xs) simp_all
qed

lemma parseInt10_digits_then_rest:
  assumes "ds \<noteq> []" and "list_all is_digit ds" and "rest = [] \<or> \<not> is_digit (hd rest)"
  shows "parseInt10 (ds @ rest) = to_double (of_int (digits_value 0 ds))"
proof -
  obtain c cs where ds: "ds = c # cs"
    using assms(1) by (cases ds) auto
  have c: "is_digit c" and cs: "list_all is_digit cs"
    using assms(2) by (simp_all add: ds)
  have t: "takeWhile is_digit (cs @ rest) = cs"
    using cs assms(3) by (rule takeWhile_append_stop)
  have v: "digits_value 0 (c # cs) = digits_value (digit_value c) cs"
    by simp
  show ?thesis
    unfolding ds v by (simp add: parseInt10_def Let_def c t is_digit_not_other [OF c])
qed

lemma read_decimal_digits:
  assumes "ds \<noteq> []" and "list_all is_digit ds"
  shows "read_decimal ds = Some (of_int (digits_value 0 ds))"
    and "read_decimal (CHR ''-'' # ds) = Some (- of_int (digits_value 0 ds))"
proof -
  have ne: "list_all (\<lambda>c. \<not> is_exponent_mark c) ds"
    using assms(2) by (simp add: list_all_iff is_digit_not_other)
  have t: "takeWhile (\<lambda>c. \<not> is_exponent_mark c) ds = ds"
    and r: "dropWhile (\<lambda>c. \<not> is_exponent_mark c) ds = []"
    using ne by (simp_all add: takeWhile_all dropWhile_all)
  have m: "read_mantissa ds = Some (digits_value 0 ds, 0)"
    using assms by (simp add: read_mantissa_def takeWhile_all dropWhile_all Let_def)
  have h: "hd ds \<noteq> CHR ''-''"
    using assms by (cases ds) (simp_all add: is_digit_not_other)
  show "read_decimal ds = Some (of_int (digits_value 0 ds))"
    by (simp add: read_decimal_def Let_def t r m h)
  show "read_decimal (CHR ''-'' # ds) = Some (- of_int (digits_value 0 ds))"
    by (simp add: read_decimal_def Let_def t r m)
qed

lemma readers_of_digits:
  assumes "0 \<le> n"
  shows "BigNumber_of_string (digits_of n) = Fin (of_int n)"
    and "BigNumber_of_string (CHR ''-'' # digits_of n) = Fin (- of_int n)"
    and "parseInt10 (digits_of n) = to_double (of_int n)"
    and "parseInt10 (CHR ''-'' # digits_of n) = to_double (- of_int n)"
proof -
  have d: "digits_of n \<noteq> []" "list_all is_digit (digits_of n)"
    and v: "digits_value 0 (digits_of n) = n"
    using assms by (simp_all add: digits_of_not_Nil digits_of_all_digits digits_value_digits_of)
  show "BigNumber_of_string (digits_of n) = Fin (of_int n)"
    by (simp add: BigNumber_of_string_def read_decimal_digits(1) [OF d] v)
  show "BigNumber_of_string (CHR ''-'' # digits_of n) = Fin (- of_int n)"
    by (simp add: BigNumber_of_string_def read_decimal_digits(2) [OF d] v)
  show "parseInt10 (digits_of n) = to_double (of_int n)"
    by (simp add: parseInt10_digits(1) [OF d] v)
  show "parseInt10 (CHR ''-'' # digits_of n) = to_double (- of_int n)"
    by (simp add: parseInt10_digits(2) [OF d] v)
qed

lemma readers_of_whole_text:
  assumes "\<bar>k\<bar> < 2 ^ 53"
  shows "BigNumber_of_string ((if k < 0 then ''-'' else []) @ digits_of \<bar>k\<bar>) = Fin (of_int k)"
    and "parseInt10 ((if k < 0 then ''-'' else []) @ digits_of \<bar>k\<bar>) = Number (of_int k)"
proof -
  have t: "to_double (of_int k) = Number (of_int k)"
    by (rule to_double_of_int [OF assms])
  show "BigNumber_of_string ((if k < 0 then ''-'' else []) @ digits_of \<bar>k\<bar>) = Fin (of_int k)"
    using readers_of_digits(1) [of k] readers_of_digits(2) [of "- k"]
    by (cases "k < 0") simp_all
  show "parseInt10 ((if k < 0 then ''-'' else []) @ digits_of \<bar>k\<bar>) = Number (of_int k)"
    using readers_of_digits(3) [of k] readers_of_digits(4) [of "- k"] t
    by (cases "k < 0") simp_all
qed

lemma takeWhile_eq_replicate:
  "takeWhile (\<lambda>x. x = z) xs = replicate (length (takeWhile (\<lambda>x. x = z) xs)) z"
  by (induction xs) simp_all

lemma strip_trailing:
  "rev (dropWhile (\<lambda>x. x = z) (rev xs))
     @ replicate (length xs - length (rev (dropWhile (\<lambda>x. x = z) (rev xs)))) z = xs"
proof -
  let ?t = "takeWhile (\<lambda>x. x = z) (rev xs)"
  let ?d = "dropWhile (\<lambda>x. x = z) (rev xs)"
  have s: "rev xs = ?t @ ?d"
    by simp
  then have "xs = rev ?d @ rev ?t"
    by (metis rev_append rev_rev_ident)
  moreover have "rev ?t = replicate (length ?t) z"
    by (subst takeWhile_eq_replicate) simp
  moreover have "length xs = length ?t + length ?d"
    by (metis s length_append length_rev)
  ultimately show ?thesis
    by simp
qed

lemma count_decimals_whole: "count_decimals fuel (of_int k) = 0"
  by (cases fuel) simp_all

lemma digits_of_zero: "digits_of 0 = ''0''"
  by (subst digits_of.simps) (simp add: digit_char_def)

lemma digits_value_zeros:
  "list_all (\<lambda>x. x = CHR ''0'') xs \<Longrightarrow> digits_value 0 xs = 0"
  by (induction xs) (simp_all add: digit_value_def)

lemma BigNumber_toString_whole:
  assumes neg: "TO_EXP_NEG cfg < 0" and pos: "0 < TO_EXP_POS cfg"
    and k: "\<bar>k\<bar> < 10 ^ nat (TO_EXP_POS cfg)"
  shows "BigNumber_toString cfg (Fin (of_int k)) = (if k < 0 then ''-'' else []) @ digits_of \<bar>k\<bar>"
proof -
  define ds where "ds = digits_of \<bar>k\<bar>"
  define c0 where "c0 = rev (dropWhile (\<lambda>x. x = CHR ''0'') (rev ds))"
  define c where "c = (if c0 = [] then ''0'' else c0)"
  define e where "e = int (length ds) - 1"
  have fl: "\<lfloor>\<bar>rat_of_int k\<bar>\<rfloor> = \<bar>k\<bar>"
    by (metis floor_of_int of_int_abs)
  have co: "coefficient (of_int k) = (c, e)"
    by (simp add: coefficient_def decimals_def count_decimals_whole Let_def fl
        c_def c0_def e_def ds_def del: of_int_abs)
  have len: "length ds \<le> nat (TO_EXP_POS cfg)"
    unfolding ds_def using k pos by (intro length_digits_of) simp_all
  have ne: "ds \<noteq> []"
    unfolding ds_def by (rule digits_of_not_Nil)
  have e0: "0 \<le> e" "e < TO_EXP_POS cfg"
    using len ne pos by (auto simp: e_def Suc_le_eq)
  have fx: "toFixedPoint c e = ds"
  proof (cases "c0 = []")
    case True
    then have "list_all (\<lambda>x. x = CHR ''0'') ds"
      unfolding c0_def by (simp add: list_all_iff dropWhile_eq_Nil_conv)
    then have "digits_value 0 ds = 0"
      by (rule digits_value_zeros)
    then have "\<bar>k\<bar> = 0"
      unfolding ds_def by (simp add: digits_value_digits_of)
    then have "ds = ''0''"
      unfolding ds_def by (simp add: digits_of_zero)
    with True show ?thesis
      by (simp add: c_def e_def toFixedPoint_def)
  next
    case False
    have s: "c0 @ replicate (length ds - length c0) CHR ''0'' = ds"
      unfolding c0_def by (rule strip_trailing)
    then have le: "length c0 \<le> length ds"
      by (metis length_append le_add1)
    show ?thesis
    proof (cases "length c0 < length ds")
      case True
      then have "nat (e + 1 - int (length c0)) = length ds - length c0"
        by (simp add: e_def)
      with True False s ne show ?thesis
        by (simp add: c_def e_def toFixedPoint_def)
    next
      case F: False
      with le have "length c0 = length ds"
        by simp
      with s False ne show ?thesis
        by (simp add: c_def e_def toFixedPoint_def)
    qed
  qed
  have "\<not> (e \<le> TO_EXP_NEG cfg \<or> TO_EXP_POS cfg \<le> e)"
    using e0 neg by simp
  then show ?thesis
    by (simp add: co fx ds_def)
qed

lemma parseInt10_of_digits_exact:
  assumes "ds \<noteq> []" and "list_all is_digit ds" and "\<bar>digits_value 0 ds\<bar> < 2 ^ 53"
  shows "parseInt10 ds = Number (of_int (digits_value 0 ds))"
  by (simp add: parseInt10_digits(1) [OF assms(1,2)] to_double_of_int [OF assms(3)])

lemma readers_of_text_0:
  "BigNumber_of_string ''0'' = Fin (of_int 0)" "parseInt10 ''0'' = Number (of_int 0)"
  using readers_of_whole_text [of 0] by (simp_all add: digits_of_zero)

lemma ticketsToBuy_handleInputChange:
  "ticketsToBuy (handleInputChange cfg p s input) =
     (if truthy (parseInt10 input)
      then BigNumber_toString cfg
        (limitNumberByMaxTicketsPerBuy p (BigNumber_of_number (parseInt10 input)))
      else ''0'')"
  by (simp add: handleInputChange_def Let_def del: BigNumber_toString.simps)

lemma initial_quantity_is_whole:
  "BigNumber_of_string (ticketsToBuy initial_state) = Fin (of_int 0)
   \<and> parseInt10 (ticketsToBuy initial_state) = Number (of_int 0)"
  using readers_of_text_0 by (simp add: initial_state_def)

text \<open>
  The quantity text after the input handler. Let the cap be a whole number below \<open>2^53\<close>
  in magnitude. Unless \<^verbatim>\<open>parseInt\<close> reads from the input a number at or below \<open>-2^53\<close>, the
  handler stores the plain decimal text of a whole number below \<open>2^53\<close> in magnitude: the
  text 0 when \<^verbatim>\<open>parseInt\<close> reads no number or zero, the cap when it reads a number above
  the cap, and the number read otherwise. The initial state holds such a text as well.
\<close>

lemma parseInt10_cases:
  "parseInt10 s = Number_NaN \<or> (\<exists>z. parseInt10 s = to_double (of_int z))"
proof -
  have "\<exists>z. to_double ((if neg then - 1 else 1) * of_int k) = to_double (of_int z)" for neg k
    by (cases neg) (auto intro: exI [of _ "- k"] exI [of _ k])
  then show ?thesis
    by (simp add: parseInt10_def Let_def)
qed

lemma whole_text_of_zero: "''0'' = (if (0::int) < 0 then ''-'' else []) @ digits_of \<bar>0\<bar>"
  by (simp add: digits_of_zero)

lemma initial_quantity_text:
  "ticketsToBuy initial_state = (if (0::int) < 0 then ''-'' else []) @ digits_of \<bar>0\<bar>"
  by (simp add: initial_state_def digits_of_zero)

lemma handleInputChange_writes_whole_text:
  assumes cap: "maxNumberTicketsPerBuyOrClaim p = Fin (of_int c)" "\<bar>c\<bar> < 2 ^ 53"
    and cfg: "TO_EXP_NEG cfg < 0" "16 \<le> TO_EXP_POS cfg"
    and low: "parseInt10 input \<noteq> Number_NegInfinity"
      "\<And>v. parseInt10 input = Number v \<Longrightarrow> - (2 ^ 53) < v"
  shows "\<exists>q. \<bar>q\<bar> < 2 ^ 53
    \<and> ticketsToBuy (handleInputChange cfg p s input)
      = (if q < 0 then ''-'' else []) @ digits_of \<bar>q\<bar>"
proof -
  have print: "BigNumber_toString cfg (Fin (of_int k))
      = (if k < 0 then ''-'' else []) @ digits_of \<bar>k\<bar>" if "\<bar>k\<bar> < 2 ^ 53" for k
  proof -
    have "(2::int) ^ 53 < 10 ^ 16"
      by simp
    also have "\<dots> \<le> 10 ^ nat (TO_EXP_POS cfg)"
      using cfg(2) by (intro power_increasing) simp_all
    finally have "\<bar>k\<bar> < 10 ^ nat (TO_EXP_POS cfg)"
      using that by simp
    then show ?thesis
      using cfg by (intro BigNumber_toString_whole) simp_all
  qed
  have zero: ?thesis if "ticketsToBuy (handleInputChange cfg p s input) = ''0''"
    unfolding that using whole_text_of_zero by (intro exI [of _ 0]) simp
  from parseInt10_cases [of input] consider "parseInt10 input = Number_NaN"
    | z where "parseInt10 input = to_double (of_int z)" "\<bar>z\<bar> < 2 ^ 53"
    | z where "parseInt10 input = to_double (of_int z)" "2 ^ 53 \<le> z"
    | z where "parseInt10 input = to_double (of_int z)" "z \<le> - (2 ^ 53)"
    by (metis abs_less_iff not_le neg_le_iff_le minus_minus)
  then show ?thesis
  proof cases
    case 1
    then show ?thesis
      by (intro zero) (simp add: ticketsToBuy_handleInputChange)
  next
    case 2
    then have i: "parseInt10 input = Number (of_int z)"
      by (simp add: to_double_of_int)
    show ?thesis
    proof (cases "z = 0")
      case True
      then show ?thesis
        using i by (intro zero) (simp add: ticketsToBuy_handleInputChange)
    next
      case False
      define k where "k = min z c"
      have b: "\<bar>k\<bar> < 2 ^ 53"
        using 2(2) cap(2) by (simp add: k_def min_def)
      have "limitNumberByMaxTicketsPerBuy p (Fin (of_int z)) = Fin (min (of_int z) (of_int c))"
        by (rule limitNumberByMaxTicketsPerBuy_finite [OF cap(1)])
      also have "min (rat_of_int z) (of_int c) = of_int k"
        by (simp add: k_def min_def)
      finally have "ticketsToBuy (handleInputChange cfg p s input)
          = (if k < 0 then ''-'' else []) @ digits_of \<bar>k\<bar>"
        using i False
        by (simp add: ticketsToBuy_handleInputChange print [OF b] del: BigNumber_toString.simps)
      with b show ?thesis
        by blast
    qed
  next
    case 3
    from to_double_large [OF 3(2)]
    have "truthy (parseInt10 input)
        \<and> limitNumberByMaxTicketsPerBuy p (BigNumber_of_number (parseInt10 input))
          = Fin (of_int c)"
    proof
      assume "to_double (of_int z) = Number_PosInfinity"
      then show ?thesis
        unfolding 3(1) by (simp add: limitNumberByMaxTicketsPerBuy_def cap(1))
    next
      assume "\<exists>v. to_double (of_int z) = Number v \<and> 2 ^ 53 \<le> v"
      then obtain v where v: "to_double (of_int z) = Number v" "2 ^ 53 \<le> v"
        by blast
      have "(of_int c :: rat) < 2 ^ 53"
        using cap(2) by (metis abs_less_iff of_int_less_numeral_power_cancel_iff)
      with v(2) have "of_int c < v" "v \<noteq> 0"
        by simp_all
      then show ?thesis
        unfolding 3(1) v(1) by (simp add: limitNumberByMaxTicketsPerBuy_def cap(1))
    qed
    then have "ticketsToBuy (handleInputChange cfg p s input)
        = (if c < 0 then ''-'' else []) @ digits_of \<bar>c\<bar>"
      by (simp add: ticketsToBuy_handleInputChange print [OF cap(2)]
          del: BigNumber_toString.simps)
    with cap(2) show ?thesis
      by blast
  next
    case 4
    from to_double_small [OF 4(2)] low show ?thesis
      unfolding 4(1) by force
  qed
qed

lemma handleInputChange_keeps_quantity_whole:
  assumes "maxNumberTicketsPerBuyOrClaim p = Fin (of_int c)" "\<bar>c\<bar> < 2 ^ 53"
    and "TO_EXP_NEG cfg < 0" "16 \<le> TO_EXP_POS cfg"
    and "parseInt10 input \<noteq> Number_NegInfinity"
      "\<And>v. parseInt10 input = Number v \<Longrightarrow> - (2 ^ 53) < v"
  shows "\<exists>q. BigNumber_of_string (ticketsToBuy (handleInputChange cfg p s input)) = Fin (of_int q)
    \<and> parseInt10 (ticketsToBuy (handleInputChange cfg p s input)) = Number (of_int q)"
proof -
  from handleInputChange_writes_whole_text [OF assms, of s] obtain q
    where q: "\<bar>q\<bar> < 2 ^ 53"
      "ticketsToBuy (handleInputChange cfg p s input)
        = (if q < 0 then ''-'' else []) @ digits_of \<bar>q\<bar>"
    by blast
  show ?thesis
    unfolding q(2) using readers_of_whole_text [OF q(1)] by blast
qed

section \<open>The validator's maximum and its balance flag\<close>

lemma bn_eq_zero_iff: "bn_eq x (Fin 0) \<longleftrightarrow> x = Fin 0"
  by (cases x) auto

lemma bn_div_zero_left: "bn_gt y (Fin 0) \<Longrightarrow> bn_div cfg (Fin 0) y = Fin 0"
  by (cases y) auto

text \<open>
  Claim C7 as the specification states it: the balance flag is on exactly when the balance
  query has succeeded and the maximum, which the specification takes as the floor of
  balance over price, capped, is zero. The code tests the quotient it stores, which is
  not floored. With a balance of 1, a price of 2 and a cap of 100, fetched, the floor is
  0 but the stored maximum is 0.5 and the flag stays off.
\<close>

theorem balance_below_price_not_flagged_counterexample:
  "hasFetchedBalance
       \<lparr>maxNumberTicketsPerBuyOrClaim = Fin 100, priceTicketInCake = Fin 2,
        discountDivisor = Fin 2000, userCake = Fin 1, hasFetchedBalance = True,
        isApproved = False, isConfirmed = False, ticketsForPurchase_length = 0\<rparr>
   \<and> min \<lfloor>1 / 2 :: rat\<rfloor> 100 = 0
   \<and> maxPossibleTicketPurchase (getMaxPossiblePurchase bignumber_defaults
       \<lparr>maxNumberTicketsPerBuyOrClaim = Fin 100, priceTicketInCake = Fin 2,
        discountDivisor = Fin 2000, userCake = Fin 1, hasFetchedBalance = True,
        isApproved = False, isConfirmed = False, ticketsForPurchase_length = 0\<rparr> initial_state) = Fin (1 / 2)
   \<and> \<not> userNotEnoughCake (getMaxPossiblePurchase bignumber_defaults
       \<lparr>maxNumberTicketsPerBuyOrClaim = Fin 100, priceTicketInCake = Fin 2,
        discountDivisor = Fin 2000, userCake = Fin 1, hasFetchedBalance = True,
        isApproved = False, isConfirmed = False, ticketsForPurchase_length = 0\<rparr> initial_state)"
proof -
  let ?p = "\<lparr>maxNumberTicketsPerBuyOrClaim = Fin 100, priceTicketInCake = Fin 2,
             discountDivisor = Fin 2000, userCake = Fin 1, hasFetchedBalance = True,
             isApproved = False, isConfirmed = False, ticketsForPurchase_length = 0\<rparr>"
  have q: "round_dp bignumber_defaults (1 / 2) = 1 / 2"
    by (rule round_dp_exact) (simp add: bignumber_defaults_def is_int_def)
  have f: "\<lfloor>1 / 2 :: rat\<rfloor> = 0"
    by (simp add: floor_eq_iff)
  have e: "userCake ?p = Fin 1" "priceTicketInCake ?p = Fin 2" "(2::rat) \<noteq> 0"
    "maxNumberTicketsPerBuyOrClaim ?p = Fin 100"
    by simp_all
  show ?thesis
    unfolding getMaxPossiblePurchase_finite [OF e, of bignumber_defaults initial_state] q f
    by simp
qed

text \<open>
  Claim C7, amended. Let the balance \<open>b\<close>, the price \<open>a\<close> and the cap \<open>c\<close> be finite and
  the price not zero. \<^verbatim>\<open>getMaxPossiblePurchase\<close> stores the smaller of the quotient
  \<open>b / a\<close>, rounded to the configured decimals and not floored, and the cap; it sets the
  balance flag exactly when the balance query has succeeded and that smaller value is
  zero. With a zero balance and a cap that is not negative the stored maximum is zero and
  the flag is on as soon as the balance has been fetched. With a cap above zero and a
  balance of at least one unit of the last kept decimal of the price the flag is off,
  also when the balance is below the price of one ticket.
\<close>

theorem insufficient_flag_iff_fetched_and_unfloored_maximum_zero:
  assumes balance: "userCake p = Fin b" and price: "priceTicketInCake p = Fin a"
    and nonzero: "a \<noteq> 0" and cap: "maxNumberTicketsPerBuyOrClaim p = Fin c"
  shows "maxPossibleTicketPurchase (getMaxPossiblePurchase cfg p s)
       = Fin (min (round_dp cfg (b / a)) c)
   \<and> (userNotEnoughCake (getMaxPossiblePurchase cfg p s) \<longleftrightarrow>
        hasFetchedBalance p \<and> min (round_dp cfg (b / a)) c = 0)
   \<and> (b = 0 \<and> 0 \<le> c \<longrightarrow>
        maxPossibleTicketPurchase (getMaxPossiblePurchase cfg p s) = Fin 0
        \<and> userNotEnoughCake (getMaxPossiblePurchase cfg p s) = hasFetchedBalance p)
   \<and> (0 < c \<and> 1 / 10 ^ DECIMAL_PLACES cfg \<le> b / a \<longrightarrow>
        \<not> userNotEnoughCake (getMaxPossiblePurchase cfg p s))"
proof -
  note m = getMaxPossiblePurchase_finite [OF balance price nonzero cap, of cfg s]
  have z: "min (round_dp cfg (b / a)) c = 0" if "b = 0" "0 \<le> c"
    using that by simp
  have n: "min (round_dp cfg (b / a)) c \<noteq> 0"
    if "0 < c" "1 / 10 ^ DECIMAL_PLACES cfg \<le> b / a"
  proof -
    have "is_int (1 / 10 ^ DECIMAL_PLACES cfg * 10 ^ DECIMAL_PLACES cfg :: rat)"
      by (simp add: is_int_def)
    with that(2) have "1 / 10 ^ DECIMAL_PLACES cfg \<le> round_dp cfg (b / a)"
      by (rule round_dp_ge)
    moreover have "(0::rat) < 1 / 10 ^ DECIMAL_PLACES cfg"
      by simp
    ultimately have "0 < round_dp cfg (b / a)"
      by (rule less_le_trans [rotated])
    with that(1) show ?thesis
      by (simp add: min_def)
  qed
  show ?thesis
    unfolding m using z n by auto
qed

theorem insufficient_flag_iff_fetched_and_unfloored_maximum_zero_witness:
  "userNotEnoughCake (getMaxPossiblePurchase bignumber_defaults
       \<lparr>maxNumberTicketsPerBuyOrClaim = Fin 100, priceTicketInCake = Fin 500000000000000000,
        discountDivisor = Fin 2000, userCake = Fin 0, hasFetchedBalance = True,
        isApproved = False, isConfirmed = False, ticketsForPurchase_length = 0\<rparr> initial_state)
   \<and> \<not> userNotEnoughCake (getMaxPossiblePurchase bignumber_defaults
       \<lparr>maxNumberTicketsPerBuyOrClaim = Fin 100, priceTicketInCake = Fin 2,
        discountDivisor = Fin 2000, userCake = Fin 1, hasFetchedBalance = True,
        isApproved = False, isConfirmed = False, ticketsForPurchase_length = 0\<rparr> initial_state)"
proof -
  let ?z = "\<lparr>maxNumberTicketsPerBuyOrClaim = Fin 100, priceTicketInCake = Fin 500000000000000000,
             discountDivisor = Fin 2000, userCake = Fin 0, hasFetchedBalance = True,
             isApproved = False, isConfirmed = False, ticketsForPurchase_length = 0\<rparr>"
  let ?x = "\<lparr>maxNumberTicketsPerBuyOrClaim = Fin 100, priceTicketInCake = Fin 2,
             discountDivisor = Fin 2000, userCake = Fin 1, hasFetchedBalance = True,
             isApproved = False, isConfirmed = False, ticketsForPurchase_length = 0\<rparr>"
  have ez: "userCake ?z = Fin 0" "priceTicketInCake ?z = Fin 500000000000000000"
    "(500000000000000000::rat) \<noteq> 0" "maxNumberTicketsPerBuyOrClaim ?z = Fin 100"
    by simp_all
  have ex: "userCake ?x = Fin 1" "priceTicketInCake ?x = Fin 2" "(2::rat) \<noteq> 0"
    "maxNumberTicketsPerBuyOrClaim ?x = Fin 100"
    by simp_all
  have hz: "(0::rat) = 0 \<and> (0::rat) \<le> 100" "hasFetchedBalance ?z"
    by simp_all
  have hx: "(0::rat) < 100 \<and> 1 / 10 ^ DECIMAL_PLACES bignumber_defaults \<le> (1::rat) / 2"
    by (simp add: bignumber_defaults_def)
  from insufficient_flag_iff_fetched_and_unfloored_maximum_zero
      [OF ez, of bignumber_defaults initial_state]
    insufficient_flag_iff_fetched_and_unfloored_maximum_zero
      [OF ex, of bignumber_defaults initial_state] hz hx
  show ?thesis
    by blast
qed

text \<open>
  Claim C2 as the specification states it: the maximum is the floor of balance over price,
  capped, hence an integer. The code does not take the floor. With a balance of 5, a
  price of 2 and a cap of 100 it stores 2.5.
\<close>

theorem maximum_is_not_floored_counterexample:
  "maxPossibleTicketPurchase (getMaxPossiblePurchase bignumber_defaults
       \<lparr>maxNumberTicketsPerBuyOrClaim = Fin 100, priceTicketInCake = Fin 2,
        discountDivisor = Fin 2000, userCake = Fin 5, hasFetchedBalance = True,
        isApproved = False, isConfirmed = False, ticketsForPurchase_length = 0\<rparr> initial_state) = Fin (5 / 2)
   \<and> Fin (5 / 2) \<noteq> Fin (of_int (min \<lfloor>5 / 2 :: rat\<rfloor> 100))
   \<and> \<not> is_int (5 / 2)"
  by code_simp

text \<open>
  Claim C2, amended. For a finite balance, a price above zero and a finite cap, the stored
  maximum is the smaller of the cap and the quotient balance over price as the library
  rounds it: less than one unit of the last configured decimal away from the exact
  quotient, and the exact quotient when that has no more decimals than configured. No
  floor is taken.
\<close>

theorem maximum_is_min_of_rounded_quotient_and_cap:
  assumes "userCake p = Fin b" and "priceTicketInCake p = Fin a" and "0 < a"
    and "maxNumberTicketsPerBuyOrClaim p = Fin c"
  shows "maxPossibleTicketPurchase (getMaxPossiblePurchase cfg p s)
           = Fin (min (round_dp cfg (b / a)) c)
    \<and> \<bar>round_dp cfg (b / a) - b / a\<bar> < 1 / 10 ^ DECIMAL_PLACES cfg
    \<and> (is_int (b / a * 10 ^ DECIMAL_PLACES cfg) \<longrightarrow>
          maxPossibleTicketPurchase (getMaxPossiblePurchase cfg p s) = Fin (min (b / a) c))"
  using assms
  by (auto simp: getMaxPossiblePurchase_def limitNumberByMaxTicketsPerBuy_def Let_def
      round_dp_err round_dp_exact min_def)

theorem maximum_is_min_of_rounded_quotient_and_cap_witness:
  "(0::rat) < 2 \<and> is_int (5 / 2 * 10 ^ DECIMAL_PLACES bignumber_defaults)
   \<and> maxPossibleTicketPurchase (getMaxPossiblePurchase bignumber_defaults
       \<lparr>maxNumberTicketsPerBuyOrClaim = Fin 100, priceTicketInCake = Fin 2,
        discountDivisor = Fin 2000, userCake = Fin 5, hasFetchedBalance = True,
        isApproved = False, isConfirmed = False, ticketsForPurchase_length = 0\<rparr> initial_state) = Fin (min (5 / 2) 100)"
proof -
  let ?p = "\<lparr>maxNumberTicketsPerBuyOrClaim = Fin 100, priceTicketInCake = Fin 2,
        discountDivisor = Fin 2000, userCake = Fin 5, hasFetchedBalance = True,
        isApproved = False, isConfirmed = False, ticketsForPurchase_length = 0\<rparr>"
  have h: "is_int (5 / 2 * 10 ^ DECIMAL_PLACES bignumber_defaults)"
    by (rule is_intI [where k = "25 * 10 ^ 19"]) (simp add: bignumber_defaults_def)
  have pos: "(0::rat) < 2"
    by simp
  have e: "userCake ?p = Fin 5" "priceTicketInCake ?p = Fin 2"
    "maxNumberTicketsPerBuyOrClaim ?p = Fin 100"
    by simp_all
  from maximum_is_min_of_rounded_quotient_and_cap [OF e(1) e(2) pos e(3)] h pos
  show ?thesis
    by blast
qed

section \<open>The discount pricing\<close>

text \<open>
  Claim C1 as the specification states it: the cost after discount is the exact value of
  price times n times (divisor + 1 - n) over the divisor. The division is the library's,
  which rounds. With a price of 1, a divisor of 300 and 2 tickets the exact value is
  598/300; the code computes 1.99333333333333333333 under the library's defaults, and
  the discount differs from the exact one accordingly.
\<close>

theorem cost_after_discount_is_rounded_counterexample:
  "getCostAfterDiscount bignumber_defaults
       \<lparr>maxNumberTicketsPerBuyOrClaim = Fin 100, priceTicketInCake = Fin 1,
        discountDivisor = Fin 300, userCake = Fin 5, hasFetchedBalance = True,
        isApproved = False, isConfirmed = False, ticketsForPurchase_length = 0\<rparr> (Fin 2)
     = Fin (199333333333333333333 / 10 ^ 20)
   \<and> Fin (199333333333333333333 / 10 ^ 20) \<noteq> Fin (1 * 2 * (300 + 1 - 2) / 300)
   \<and> discountBeingApplied bignumber_defaults
       \<lparr>maxNumberTicketsPerBuyOrClaim = Fin 100, priceTicketInCake = Fin 1,
        discountDivisor = Fin 300, userCake = Fin 5, hasFetchedBalance = True,
        isApproved = False, isConfirmed = False, ticketsForPurchase_length = 0\<rparr> (Fin 2)
     \<noteq> Fin (1 * 2 - 1 * 2 * (300 + 1 - 2) / 300)"
  by code_simp

text \<open>
  Claim C1, amended. For a finite price, a finite divisor other than zero and a finite
  ticket count n, the cost before discount is exactly price times n; the cost after
  discount is price times n times (divisor + 1 - n) over the divisor, rounded by the
  library to the configured decimals, so less than one unit of the last decimal away
  from the exact value, and exact when that value has no more decimals than configured;
  the discount is the cost before minus the (rounded) cost after.
\<close>

theorem costs_exact_up_to_the_rounded_quotient:
  assumes "priceTicketInCake p = Fin a" and "discountDivisor p = Fin d" and "d \<noteq> 0"
  shows "costBeforeDiscount p (Fin n) = Fin (a * n)
    \<and> getCostAfterDiscount cfg p (Fin n) = Fin (round_dp cfg (a * n * (d + 1 - n) / d))
    \<and> discountBeingApplied cfg p (Fin n)
         = Fin (a * n - round_dp cfg (a * n * (d + 1 - n) / d))
    \<and> \<bar>round_dp cfg (a * n * (d + 1 - n) / d) - a * n * (d + 1 - n) / d\<bar>
         < 1 / 10 ^ DECIMAL_PLACES cfg
    \<and> (is_int (a * n * (d + 1 - n) / d * 10 ^ DECIMAL_PLACES cfg) \<longrightarrow>
          getCostAfterDiscount cfg p (Fin n) = Fin (a * n * (d + 1 - n) / d)
          \<and> discountBeingApplied cfg p (Fin n) = Fin (a * n - a * n * (d + 1 - n) / d))"
  using assms
  by (simp add: costBeforeDiscount_def getCostAfterDiscount_def discountBeingApplied_def
      bn_minus_def round_dp_err round_dp_exact)

theorem costs_exact_up_to_the_rounded_quotient_witness:
  "(2000::rat) \<noteq> 0
   \<and> is_int (5000000000000000000 * 100 * (2000 + 1 - 100) / 2000
         * 10 ^ DECIMAL_PLACES bignumber_defaults)
   \<and> getCostAfterDiscount bignumber_defaults
       \<lparr>maxNumberTicketsPerBuyOrClaim = Fin 100, priceTicketInCake = Fin 5000000000000000000,
        discountDivisor = Fin 2000, userCake = Fin 0, hasFetchedBalance = True,
        isApproved = False, isConfirmed = False, ticketsForPurchase_length = 0\<rparr> (Fin 100)
       = Fin (5000000000000000000 * 100 * (2000 + 1 - 100) / 2000)"
proof -
  let ?p = "\<lparr>maxNumberTicketsPerBuyOrClaim = Fin 100, priceTicketInCake = Fin 5000000000000000000,
        discountDivisor = Fin 2000, userCake = Fin 0, hasFetchedBalance = True,
        isApproved = False, isConfirmed = False, ticketsForPurchase_length = 0\<rparr>"
  have h: "is_int (5000000000000000000 * 100 * (2000 + 1 - 100) / 2000
      * 10 ^ DECIMAL_PLACES bignumber_defaults)"
    by (rule is_intI [where k = "47525 * 10 ^ 36"]) (simp add: bignumber_defaults_def)
  have nz: "(2000::rat) \<noteq> 0"
    by simp
  have e: "priceTicketInCake ?p = Fin 5000000000000000000" "discountDivisor ?p = Fin 2000"
    by simp_all
  from costs_exact_up_to_the_rounded_quotient [OF e nz, of 100 bignumber_defaults] h nz
  show ?thesis
    by blast
qed

lemma discount_factor_le:
  fixes a d :: rat and n :: int
  assumes "0 \<le> a" "0 < d" "0 \<le> n"
  shows "a * of_int n * (d + 1 - of_int n) / d \<le> a * of_int n"
proof (cases "n = 0")
  case True
  then show ?thesis by simp
next
  case False
  with assms have "1 \<le> n" by simp
  then have "(1::rat) \<le> of_int n" by simp
  then have "(d + 1 - of_int n) / d \<le> 1" using assms(2) by (simp add: field_simps)
  moreover have "0 \<le> a * of_int n" using assms by simp
  ultimately have "a * of_int n * ((d + 1 - of_int n) / d) \<le> a * of_int n * 1"
    by (rule mult_left_mono)
  then show ?thesis by simp
qed

text \<open>
  Claim C6 as the specification states it: for every count n at least 0, price at least 0
  and divisor above 0, the cost shown after discount is at most the cost shown before.
  The rounding of the quotient can lift the cost after discount above a cost before
  discount that has more decimals than the library keeps in a quotient. Under the
  library's defaults, one ticket at a price of 0.004999999999999999999996 with divisor
  2000 costs that price before discount and 0.005 after; with 80 decimals configured the
  same happens at a price of 5e-63 - 4e-84.
\<close>

theorem cost_after_above_cost_before_counterexample:
  "totalCost (updateCosts bignumber_defaults
       \<lparr>maxNumberTicketsPerBuyOrClaim = Fin 100, priceTicketInCake = Fin (4999999999999999999996 / 10 ^ 24),
        discountDivisor = Fin 2000, userCake = Fin 0, hasFetchedBalance = True,
        isApproved = False, isConfirmed = False, ticketsForPurchase_length = 0\<rparr>
       (initial_state\<lparr>ticketsToBuy := ''1''\<rparr>))
     = FullDisplayBalance (Fin (5 / 10 ^ 3)) 18 None
   \<and> ticketCostBeforeDiscount (updateCosts bignumber_defaults
       \<lparr>maxNumberTicketsPerBuyOrClaim = Fin 100, priceTicketInCake = Fin (4999999999999999999996 / 10 ^ 24),
        discountDivisor = Fin 2000, userCake = Fin 0, hasFetchedBalance = True,
        isApproved = False, isConfirmed = False, ticketsForPurchase_length = 0\<rparr>
       (initial_state\<lparr>ticketsToBuy := ''1''\<rparr>))
     = FullDisplayBalance (Fin (4999999999999999999996 / 10 ^ 24)) 18 None
   \<and> \<not> bn_lte (Fin (5 / 10 ^ 3)) (Fin (4999999999999999999996 / 10 ^ 24))
   \<and> totalCost (updateCosts \<lparr>DECIMAL_PLACES = 80, ROUNDING_MODE = ROUND_HALF_UP, TO_EXP_NEG = - 7, TO_EXP_POS = 21\<rparr>
       \<lparr>maxNumberTicketsPerBuyOrClaim = Fin 100, priceTicketInCake = Fin (5 / 10 ^ 63 - 4 / 10 ^ 84),
        discountDivisor = Fin 2000, userCake = Fin 0, hasFetchedBalance = True,
        isApproved = False, isConfirmed = False, ticketsForPurchase_length = 0\<rparr>
       (initial_state\<lparr>ticketsToBuy := ''1''\<rparr>))
     = FullDisplayBalance (Fin (5 / 10 ^ 63)) 18 None
   \<and> ticketCostBeforeDiscount (updateCosts \<lparr>DECIMAL_PLACES = 80, ROUNDING_MODE = ROUND_HALF_UP, TO_EXP_NEG = - 7, TO_EXP_POS = 21\<rparr>
       \<lparr>maxNumberTicketsPerBuyOrClaim = Fin 100, priceTicketInCake = Fin (5 / 10 ^ 63 - 4 / 10 ^ 84),
        discountDivisor = Fin 2000, userCake = Fin 0, hasFetchedBalance = True,
        isApproved = False, isConfirmed = False, ticketsForPurchase_length = 0\<rparr>
       (initial_state\<lparr>ticketsToBuy := ''1''\<rparr>))
     = FullDisplayBalance (Fin (5 / 10 ^ 63 - 4 / 10 ^ 84)) 18 None
   \<and> \<not> bn_lte (Fin (5 / 10 ^ 63)) (Fin (5 / 10 ^ 63 - 4 / 10 ^ 84))"
proof -
  let ?p = "\<lparr>maxNumberTicketsPerBuyOrClaim = Fin 100, priceTicketInCake = Fin (4999999999999999999996 / 10 ^ 24),
        discountDivisor = Fin 2000, userCake = Fin 0, hasFetchedBalance = True,
        isApproved = False, isConfirmed = False, ticketsForPurchase_length = 0\<rparr>"
  let ?p' = "\<lparr>maxNumberTicketsPerBuyOrClaim = Fin 100, priceTicketInCake = Fin (5 / 10 ^ 63 - 4 / 10 ^ 84),
        discountDivisor = Fin 2000, userCake = Fin 0, hasFetchedBalance = True,
        isApproved = False, isConfirmed = False, ticketsForPurchase_length = 0\<rparr>"
  let ?c' = "\<lparr>DECIMAL_PLACES = 80, ROUNDING_MODE = ROUND_HALF_UP, TO_EXP_NEG = - 7, TO_EXP_POS = 21\<rparr>"
  let ?s = "initial_state\<lparr>ticketsToBuy := ''1''\<rparr>"
  let ?a = "4999999999999999999996 / 10 ^ 24 :: rat"
  let ?a' = "5 / 10 ^ 63 - 4 / 10 ^ 84 :: rat"
  have n: "BigNumber_of_string (ticketsToBuy ?s) = Fin 1"
    by code_simp
  have r: "round_dp bignumber_defaults (?a * 1 * (2000 + 1 - 1) / 2000) = 5 / 10 ^ 3"
    by (rule trans [OF round_dp_half_up_eval [where k = "5 * 10 ^ 17"]])
      (simp_all add: bignumber_defaults_def)
  have r': "round_dp ?c' (?a' * 1 * (2000 + 1 - 1) / 2000) = 5 / 10 ^ 63"
    by (rule trans [OF round_dp_half_up_eval [where k = "5 * 10 ^ 17"]]) simp_all
  have after: "getCostAfterDiscount bignumber_defaults ?p (Fin 1) = Fin (5 / 10 ^ 3)"
    by (rule trans [OF getCostAfterDiscount_finite [where a = ?a and d = 2000]])
      (simp_all only: r, simp_all)
  have after': "getCostAfterDiscount ?c' ?p' (Fin 1) = Fin (5 / 10 ^ 63)"
    by (rule trans [OF getCostAfterDiscount_finite [where a = ?a' and d = 2000]])
      (simp_all only: r', simp_all)
  have before: "costBeforeDiscount ?p (Fin 1) = Fin ?a"
    by (rule trans [OF costBeforeDiscount_finite [where a = ?a]]) simp_all
  have before': "costBeforeDiscount ?p' (Fin 1) = Fin ?a'"
    by (rule trans [OF costBeforeDiscount_finite [where a = ?a']]) simp_all
  show ?thesis
    unfolding updateCosts_lines n after before after' before'
    by (simp add: bn_lte_def)
qed

text \<open>
  Claim C6, amended. For every whole ticket count n at least 0, every price at least 0
  for which price times n has no more decimals than the library keeps in a quotient
  (every whole amount of the smallest token unit does), and every divisor above 0: the
  amount shown as cost after discount is at most the amount shown as cost before
  discount, the three amounts shown are numbers at least 0, and a cost line whose raw
  value is at most 0 shows the text 0.
\<close>

theorem shown_costs_ordered_and_not_negative:
  assumes price: "priceTicketInCake p = Fin a" "0 \<le> a"
    and divisor: "discountDivisor p = Fin d" "0 < d"
    and count: "BigNumber_of_string (ticketsToBuy s) = Fin (of_int n)" "0 \<le> n"
    and decimals: "is_int (a * of_int n * 10 ^ DECIMAL_PLACES cfg)"
  shows "bn_lte (amount_shown (totalCost (updateCosts cfg p s)))
           (amount_shown (ticketCostBeforeDiscount (updateCosts cfg p s)))
    \<and> bn_lte (Fin 0) (amount_shown (totalCost (updateCosts cfg p s)))
    \<and> bn_lte (Fin 0) (amount_shown (ticketCostBeforeDiscount (updateCosts cfg p s)))
    \<and> bn_lte (Fin 0) (amount_shown (discountValue (updateCosts cfg p s)))
    \<and> (bn_lte (costBeforeDiscount p (Fin (of_int n))) (Fin 0)
          \<longrightarrow> ticketCostBeforeDiscount (updateCosts cfg p s) = Text_0)
    \<and> (bn_lte (getCostAfterDiscount cfg p (Fin (of_int n))) (Fin 0)
          \<longrightarrow> totalCost (updateCosts cfg p s) = Text_0)
    \<and> (bn_lte (discountBeingApplied cfg p (Fin (of_int n))) (Fin 0)
          \<longrightarrow> discountValue (updateCosts cfg p s) = Text_0)"
proof -
  let ?E = "a * of_int n * (d + 1 - of_int n) / d"
  have "?E \<le> a * of_int n"
    using price(2) divisor(2) count(2) by (rule discount_factor_le)
  then have le: "round_dp cfg ?E \<le> a * of_int n"
    using decimals by (rule round_dp_le)
  have nn: "0 \<le> a * of_int n"
    using price(2) count(2) by simp
  show ?thesis
    using price(1) divisor count(1) le nn
    by (simp add: updateCosts_def costBeforeDiscount_def getCostAfterDiscount_def
        discountBeingApplied_def bn_minus_def bn_lte_def Let_def)
qed

theorem shown_costs_ordered_and_not_negative_witness:
  "(0::rat) \<le> 5000000000000000000 \<and> (0::rat) < 2000 \<and> (0::int) \<le> 100
   \<and> BigNumber_of_string (ticketsToBuy (initial_state\<lparr>ticketsToBuy := ''100''\<rparr>))
       = Fin (of_int 100)
   \<and> is_int (5000000000000000000 * of_int 100 * 10 ^ DECIMAL_PLACES bignumber_defaults)
   \<and> bn_lte
      (amount_shown (totalCost (updateCosts bignumber_defaults
         \<lparr>maxNumberTicketsPerBuyOrClaim = Fin 100, priceTicketInCake = Fin 5000000000000000000,
        discountDivisor = Fin 2000, userCake = Fin 0, hasFetchedBalance = True,
        isApproved = False, isConfirmed = False, ticketsForPurchase_length = 0\<rparr>
         (initial_state\<lparr>ticketsToBuy := ''100''\<rparr>))))
      (amount_shown (ticketCostBeforeDiscount (updateCosts bignumber_defaults
         \<lparr>maxNumberTicketsPerBuyOrClaim = Fin 100, priceTicketInCake = Fin 5000000000000000000,
        discountDivisor = Fin 2000, userCake = Fin 0, hasFetchedBalance = True,
        isApproved = False, isConfirmed = False, ticketsForPurchase_length = 0\<rparr>
         (initial_state\<lparr>ticketsToBuy := ''100''\<rparr>))))"
proof -
  let ?p = "\<lparr>maxNumberTicketsPerBuyOrClaim = Fin 100, priceTicketInCake = Fin 5000000000000000000,
        discountDivisor = Fin 2000, userCake = Fin 0, hasFetchedBalance = True,
        isApproved = False, isConfirmed = False, ticketsForPurchase_length = 0\<rparr>"
  let ?s = "initial_state\<lparr>ticketsToBuy := ''100''\<rparr>"
  have e: "priceTicketInCake ?p = Fin 5000000000000000000" "discountDivisor ?p = Fin 2000"
    by simp_all
  have c: "BigNumber_of_string (ticketsToBuy ?s) = Fin (of_int 100)"
    by code_simp
  have i: "is_int (5000000000000000000 * of_int 100 * 10 ^ DECIMAL_PLACES bignumber_defaults)"
    by (rule is_intI [where k = "5 * 10 ^ 40"]) (simp add: bignumber_defaults_def)
  have o: "(0::rat) \<le> 5000000000000000000" "(0::rat) < 2000" "(0::int) \<le> 100"
    by simp_all
  from shown_costs_ordered_and_not_negative [OF e(1) o(1) e(2) o(2) c o(3) i] c i o
  show ?thesis
    by blast
qed

section \<open>The percentage shortcuts\<close>

lemma is_int_more_decimals:
  assumes "is_int (q * 10 ^ j)" and "j \<le> n"
  shows "is_int (q * 10 ^ n)"
proof -
  from assms(1) obtain k where k: "q * 10 ^ j = of_int k"
    unfolding is_int_def by metis
  from assms(2) obtain i where n: "n = j + i"
    using le_Suc_ex by blast
  have "q * 10 ^ n = of_int k * 10 ^ i"
    unfolding n power_add using k by simp
  then show ?thesis
    by (simp only: is_int_of_int_times_power)
qed

lemma round_dp_exact_from:
  assumes "q * 10 ^ j = of_int k" and "j \<le> DECIMAL_PLACES cfg"
  shows "round_dp cfg q = q"
  by (rule round_dp_exact) (rule is_int_more_decimals [OF is_intI [OF assms(1)] assms(2)])

lemma handleInputChange_whole_input:
  assumes "parseInt10 input = Number (of_int r)"
    and "maxNumberTicketsPerBuyOrClaim p = Fin c"
    and "priceTicketInCake p = Fin a"
    and "userCake p = Fin b"
  shows "handleInputChange cfg p s input =
     (if b < a * min (of_int r) c then s\<lparr>userNotEnoughCake := True\<rparr>
      else if maxPossibleTicketPurchase s = Fin (min (of_int r) c)
      then s\<lparr>maxTicketPurchaseExceeded := True\<rparr>
      else s\<lparr>userNotEnoughCake := False, maxTicketPurchaseExceeded := False\<rparr>)
     \<lparr>ticketsToBuy :=
        (if r = 0 then ''0'' else BigNumber_toString cfg (Fin (min (of_int r) c)))\<rparr>"
proof -
  have e: "bn_eq (Fin x) y \<longleftrightarrow> y = Fin x" for x y
    by (cases y) auto
  show ?thesis
    using assms
    by (simp add: handleInputChange_def getCakeValueOfTickets_def Let_def
        limitNumberByMaxTicketsPerBuy_finite e del: BigNumber_toString.simps)
qed

lemma Math_floor_to_double_cases:
  obtains "Math_floor (to_double q) = Number_PosInfinity"
  | "Math_floor (to_double q) = Number_NegInfinity"
  | k where "Math_floor (to_double q) = Number (of_int k)"
  by (cases "to_double q") (auto simp: to_double_def Let_def split: if_splits)


text \<open>
  A shortcut button for a percentage above zero is enabled only once the balance is
  fetched, and only for a count that is a whole number from one on, or infinite.
\<close>

lemma enabled_shortcut_offers_at_least_one:
  assumes "0 < pct"
    and "\<not> NumTicketsToBuyButton_disabled p (getNumTicketsByPercentage cfg s (Number pct))"
  shows "hasFetchedBalance p
    \<and> (getNumTicketsByPercentage cfg s (Number pct) = Number_PosInfinity
       \<or> (\<exists>k. getNumTicketsByPercentage cfg s (Number pct) = Number (of_int k) \<and> 1 \<le> k))"
proof -
  let ?c = "getNumTicketsByPercentage cfg s (Number pct)"
  have en: "hasFetchedBalance p" "\<not> number_lt ?c (Number 1)"
    using assms(2) by (simp_all add: NumTicketsToBuyButton_disabled_def)
  have "?c = Number_PosInfinity \<or> ?c = Number_NegInfinity \<or> (\<exists>k. ?c = Number (of_int k))"
  proof (cases "maxPossibleTicketPurchase s")
    case (Fin m)
    show ?thesis
    proof (cases "0 < m")
      case True
      with Fin show ?thesis
        using Math_floor_to_double_cases [of "round_dp cfg (m / 100) * pct"]
        by (simp add: getNumTicketsByPercentage_def Let_def) metis
    next
      case False
      with Fin have "?c = Number (of_int 0)"
        by (simp add: getNumTicketsByPercentage_def Let_def BIG_ZERO_def to_double_def)
      then show ?thesis
        by blast
    qed
  next
    case PosInfinity
    then show ?thesis
      using assms(1)
      by (simp add: getNumTicketsByPercentage_def Let_def bn_signed_infinity_def)
  next
    case NegInfinity
    then have "?c = Number (of_int 0)"
      by (simp add: getNumTicketsByPercentage_def Let_def BIG_ZERO_def to_double_def)
    then show ?thesis
      by blast
  next
    case NaN
    then have "?c = Number (of_int 0)"
      by (simp add: getNumTicketsByPercentage_def Let_def BIG_ZERO_def to_double_def)
    then show ?thesis
      by blast
  qed
  then show ?thesis
    using en by (auto simp del: of_int_eq_iff)
qed

text \<open>
  Claim C8 says that a shortcut offers floor(maxPossiblePurchase * pct / 100) tickets and
  is never enabled for a count below 1. The code takes the floor of a double:
  \<^verbatim>\<open>Math.floor(percentageOfMaxTickets.toNumber())\<close>. With a balance of
  99999999999999999 units and a price of 100000000000000000 units per ticket (and at
  least 19 decimals kept in a quotient, whatever the rounding mode) the stored maximum is
  0.99999999999999999, whose floor is 0; the double nearest to it is 1, so the 100
  percent button offers 1 ticket and is enabled, although one ticket costs more than the
  balance. The input handler, given the text 1 in the same state, does raise the balance
  flag.
\<close>

theorem max_button_offers_ticket_beyond_balance:
  assumes "19 \<le> DECIMAL_PLACES cfg"
  shows "maxPossibleTicketPurchase (getMaxPossiblePurchase cfg
       \<lparr>maxNumberTicketsPerBuyOrClaim = Fin 100, priceTicketInCake = Fin 100000000000000000,
        discountDivisor = Fin 2000, userCake = Fin 99999999999999999, hasFetchedBalance = True,
        isApproved = True, isConfirmed = False, ticketsForPurchase_length = 0\<rparr> initial_state)
     = Fin (99999999999999999 / 10 ^ 17)
   \<and> \<lfloor>99999999999999999 / 10 ^ 17 * 100 / 100 :: rat\<rfloor> = 0
   \<and> oneHundredPercentOfBalance cfg
       (getMaxPossiblePurchase cfg
         \<lparr>maxNumberTicketsPerBuyOrClaim = Fin 100, priceTicketInCake = Fin 100000000000000000,
          discountDivisor = Fin 2000, userCake = Fin 99999999999999999, hasFetchedBalance = True,
          isApproved = True, isConfirmed = False, ticketsForPurchase_length = 0\<rparr> initial_state)
     = Number 1
   \<and> \<not> NumTicketsToBuyButton_disabled
       \<lparr>maxNumberTicketsPerBuyOrClaim = Fin 100, priceTicketInCake = Fin 100000000000000000,
        discountDivisor = Fin 2000, userCake = Fin 99999999999999999, hasFetchedBalance = True,
        isApproved = True, isConfirmed = False, ticketsForPurchase_length = 0\<rparr>
       (oneHundredPercentOfBalance cfg
         (getMaxPossiblePurchase cfg
           \<lparr>maxNumberTicketsPerBuyOrClaim = Fin 100, priceTicketInCake = Fin 100000000000000000,
            discountDivisor = Fin 2000, userCake = Fin 99999999999999999, hasFetchedBalance = True,
            isApproved = True, isConfirmed = False, ticketsForPurchase_length = 0\<rparr> initial_state))
   \<and> bn_gt (getCakeValueOfTickets
       \<lparr>maxNumberTicketsPerBuyOrClaim = Fin 100, priceTicketInCake = Fin 100000000000000000,
        discountDivisor = Fin 2000, userCake = Fin 99999999999999999, hasFetchedBalance = True,
        isApproved = True, isConfirmed = False, ticketsForPurchase_length = 0\<rparr> (Fin 1))
       (userCake
       \<lparr>maxNumberTicketsPerBuyOrClaim = Fin 100, priceTicketInCake = Fin 100000000000000000,
        discountDivisor = Fin 2000, userCake = Fin 99999999999999999, hasFetchedBalance = True,
        isApproved = True, isConfirmed = False, ticketsForPurchase_length = 0\<rparr>)
   \<and> userNotEnoughCake (handleInputChange cfg
       \<lparr>maxNumberTicketsPerBuyOrClaim = Fin 100, priceTicketInCake = Fin 100000000000000000,
        discountDivisor = Fin 2000, userCake = Fin 99999999999999999, hasFetchedBalance = True,
        isApproved = True, isConfirmed = False, ticketsForPurchase_length = 0\<rparr>
       (getMaxPossiblePurchase cfg
         \<lparr>maxNumberTicketsPerBuyOrClaim = Fin 100, priceTicketInCake = Fin 100000000000000000,
          discountDivisor = Fin 2000, userCake = Fin 99999999999999999, hasFetchedBalance = True,
          isApproved = True, isConfirmed = False, ticketsForPurchase_length = 0\<rparr> initial_state) ''1'')"
proof -
  let ?p = "\<lparr>maxNumberTicketsPerBuyOrClaim = Fin 100, priceTicketInCake = Fin 100000000000000000,
             discountDivisor = Fin 2000, userCake = Fin 99999999999999999, hasFetchedBalance = True,
             isApproved = True, isConfirmed = False, ticketsForPurchase_length = 0\<rparr>"
  let ?s = "getMaxPossiblePurchase cfg ?p initial_state"
  let ?m = "99999999999999999 / 10 ^ 17 :: rat"
  have d17: "17 \<le> DECIMAL_PLACES cfg"
    using assms by simp
  have q: "round_dp cfg (99999999999999999 / 100000000000000000) = ?m"
    by (rule trans [OF round_dp_exact_from [where j = 17 and k = 99999999999999999, OF _ d17]])
      simp_all
  have mx: "maxPossibleTicketPurchase ?s = Fin ?m"
    by (rule trans [OF getMaxPossiblePurchase_finite(1)
          [where b = 99999999999999999 and a = 100000000000000000 and c = 100]])
      (simp_all only: q, simp_all)
  have h: "round_dp cfg (?m / 100) = ?m / 100"
    by (rule round_dp_exact_from [where j = 19 and k = 99999999999999999, OF _ assms]) simp
  have l: "floor_log2 (?m / 100 * 100) = - 1"
    by (rule floor_log2_below_one_eval [where n = 1, OF _ _ _ bitlen_1])
      (simp_all add: floor_eq_iff)
  have d: "to_double (?m / 100 * 100) = Number 1"
    by (rule to_double_eval [where l = "- 1" and m = "2 ^ 53", OF _ l _ round_half_even_eval])
      (simp_all add: power_int_minus)
  have pos: "bn_gt (Fin ?m) (Fin 0)"
    by simp
  have dv: "bn_div cfg (Fin ?m) (Fin 100) = Fin (?m / 100)"
    by (subst bn_div.simps) (simp only: h, simp)
  have tm: "bn_times (Fin (?m / 100)) (Fin 100) = Fin (?m / 100 * 100)"
    by (rule bn_times.simps)
  have c: "oneHundredPercentOfBalance cfg ?s = Number 1"
    unfolding oneHundredPercentOfBalance_def getNumTicketsByPercentage_def mx Let_def
      BigNumber_of_number.simps if_P [OF pos] dv tm toNumber.simps d
    by simp
  have f: "\<lfloor>99999999999999999 / 10 ^ 17 * 100 / 100 :: rat\<rfloor> = 0"
    by (simp add: floor_eq_iff)
  have i: "parseInt10 ''1'' = Number (of_int 1)"
    by (simp add: parse_eval)
  have e: "maxNumberTicketsPerBuyOrClaim ?p = Fin 100"
    "priceTicketInCake ?p = Fin 100000000000000000" "userCake ?p = Fin 99999999999999999"
    by simp_all
  have u: "userNotEnoughCake (handleInputChange cfg ?p ?s ''1'')"
    by (subst handleInputChange_whole_input [OF i e]) simp
  show ?thesis
    unfolding mx c f using u
    by (simp add: NumTicketsToBuyButton_disabled_def getCakeValueOfTickets_def)
qed

theorem max_button_offers_ticket_beyond_balance_witness:
  "19 \<le> DECIMAL_PLACES bignumber_defaults
   \<and> oneHundredPercentOfBalance bignumber_defaults
       (getMaxPossiblePurchase bignumber_defaults
         \<lparr>maxNumberTicketsPerBuyOrClaim = Fin 100, priceTicketInCake = Fin 100000000000000000,
          discountDivisor = Fin 2000, userCake = Fin 99999999999999999, hasFetchedBalance = True,
          isApproved = True, isConfirmed = False, ticketsForPurchase_length = 0\<rparr> initial_state)
     = Number 1
   \<and> \<not> number_lt
       (oneHundredPercentOfBalance bignumber_defaults
         (getMaxPossiblePurchase bignumber_defaults
           \<lparr>maxNumberTicketsPerBuyOrClaim = Fin 100, priceTicketInCake = Fin 100000000000000000,
            discountDivisor = Fin 2000, userCake = Fin 99999999999999999, hasFetchedBalance = True,
            isApproved = True, isConfirmed = False, ticketsForPurchase_length = 0\<rparr> initial_state))
       (Number 1)
   \<and> hasFetchedBalance
       \<lparr>maxNumberTicketsPerBuyOrClaim = Fin 100, priceTicketInCake = Fin 100000000000000000,
        discountDivisor = Fin 2000, userCake = Fin 99999999999999999, hasFetchedBalance = True,
        isApproved = True, isConfirmed = False, ticketsForPurchase_length = 0\<rparr>"
proof -
  have d: "19 \<le> DECIMAL_PLACES bignumber_defaults"
    by (simp add: bignumber_defaults_def)
  from max_button_offers_ticket_beyond_balance [OF d] d show ?thesis
    by (simp add: NumTicketsToBuyButton_disabled_def)
qed

section \<open>The input handler\<close>

text \<open>
  Claim C5 as the specification states it ends: for any raw input above the cap, the
  clamped value is the cap and the cap-exceeded flag is set. The handler tests the balance
  first. With a balance of 10, a price of 1 and a cap of 100, the input 150 is clamped to
  100, whose cost is above the balance: the balance flag is set and the cap-exceeded
  flag is left as it was, unset.
\<close>

theorem cap_exceeded_flag_left_unset_counterexample:
  "parseInt10 ''150'' = Number 150
   \<and> bn_gt (Fin 150) (maxNumberTicketsPerBuyOrClaim
       \<lparr>maxNumberTicketsPerBuyOrClaim = Fin 100, priceTicketInCake = Fin 1,
        discountDivisor = Fin 2000, userCake = Fin 10, hasFetchedBalance = True,
        isApproved = True, isConfirmed = False, ticketsForPurchase_length = 0\<rparr>)
   \<and> ticketsToBuy (handleInputChange bignumber_defaults
       \<lparr>maxNumberTicketsPerBuyOrClaim = Fin 100, priceTicketInCake = Fin 1,
        discountDivisor = Fin 2000, userCake = Fin 10, hasFetchedBalance = True,
        isApproved = True, isConfirmed = False, ticketsForPurchase_length = 0\<rparr>
       (getMaxPossiblePurchase bignumber_defaults
         \<lparr>maxNumberTicketsPerBuyOrClaim = Fin 100, priceTicketInCake = Fin 1,
          discountDivisor = Fin 2000, userCake = Fin 10, hasFetchedBalance = True,
          isApproved = True, isConfirmed = False, ticketsForPurchase_length = 0\<rparr> initial_state) ''150'') = ''100''
   \<and> userNotEnoughCake (handleInputChange bignumber_defaults
       \<lparr>maxNumberTicketsPerBuyOrClaim = Fin 100, priceTicketInCake = Fin 1,
        discountDivisor = Fin 2000, userCake = Fin 10, hasFetchedBalance = True,
        isApproved = True, isConfirmed = False, ticketsForPurchase_length = 0\<rparr>
       (getMaxPossiblePurchase bignumber_defaults
         \<lparr>maxNumberTicketsPerBuyOrClaim = Fin 100, priceTicketInCake = Fin 1,
          discountDivisor = Fin 2000, userCake = Fin 10, hasFetchedBalance = True,
          isApproved = True, isConfirmed = False, ticketsForPurchase_length = 0\<rparr> initial_state) ''150'')
   \<and> \<not> maxTicketPurchaseExceeded (handleInputChange bignumber_defaults
       \<lparr>maxNumberTicketsPerBuyOrClaim = Fin 100, priceTicketInCake = Fin 1,
        discountDivisor = Fin 2000, userCake = Fin 10, hasFetchedBalance = True,
        isApproved = True, isConfirmed = False, ticketsForPurchase_length = 0\<rparr>
       (getMaxPossiblePurchase bignumber_defaults
         \<lparr>maxNumberTicketsPerBuyOrClaim = Fin 100, priceTicketInCake = Fin 1,
          discountDivisor = Fin 2000, userCake = Fin 10, hasFetchedBalance = True,
          isApproved = True, isConfirmed = False, ticketsForPurchase_length = 0\<rparr> initial_state) ''150'')"
proof -
  let ?p = "\<lparr>maxNumberTicketsPerBuyOrClaim = Fin 100, priceTicketInCake = Fin 1,
             discountDivisor = Fin 2000, userCake = Fin 10, hasFetchedBalance = True,
             isApproved = True, isConfirmed = False, ticketsForPurchase_length = 0\<rparr>"
  let ?s = "getMaxPossiblePurchase bignumber_defaults ?p initial_state"
  have i: "parseInt10 ''150'' = Number (of_int 150)"
    by (simp add: parse_eval)
  have e: "maxNumberTicketsPerBuyOrClaim ?p = Fin 100" "priceTicketInCake ?p = Fin 1"
    "userCake ?p = Fin 10"
    by simp_all
  have t: "BigNumber_toString bignumber_defaults (Fin 100) = ''100''"
    by (simp add: print_eval bignumber_defaults_def)
  have f: "\<not> maxTicketPurchaseExceeded ?s"
    by (simp add: getMaxPossiblePurchase_def initial_state_def Let_def)
  have h: "handleInputChange bignumber_defaults ?p ?s ''150''
      = ?s\<lparr>userNotEnoughCake := True, ticketsToBuy := ''100''\<rparr>"
    by (subst handleInputChange_whole_input [OF i e])
      (simp add: t del: BigNumber_toString.simps)
  show ?thesis
    unfolding h using i f by simp
qed

text \<open>
  Claim C5, amended. Let the input text parse to the whole number r, below \<open>2^53\<close> in
  magnitude (the whole numbers that a JavaScript number holds and the library reads back
  exactly), and let cap, price and balance be finite. The handler clamps r to
  limited = min(r, cap). If price times
  limited is above the balance it sets the balance flag and leaves the cap-exceeded flag
  as it was; else if limited equals the stored maximum it sets the cap-exceeded flag and
  leaves the balance flag as it was; otherwise it clears both. The quantity becomes the
  text of limited, or 0 when r is 0. For r above the cap, limited is the cap; the
  cap-exceeded flag is then set provided the balance covers cap tickets (the cap being
  whole, the price above zero, and the stored maximum being the validator's).
\<close>

theorem input_is_clamped_then_classified:
  assumes input: "parseInt10 input = Number (of_int r)" and exact: "\<bar>r\<bar> < 2 ^ 53"
    and cap: "maxNumberTicketsPerBuyOrClaim p = Fin c"
    and price: "priceTicketInCake p = Fin a"
    and balance: "userCake p = Fin b"
  shows "(b < a * min (of_int r) c \<longrightarrow>
            userNotEnoughCake (handleInputChange cfg p s input)
            \<and> maxTicketPurchaseExceeded (handleInputChange cfg p s input)
                = maxTicketPurchaseExceeded s)
    \<and> (a * min (of_int r) c \<le> b \<and> maxPossibleTicketPurchase s = Fin (min (of_int r) c) \<longrightarrow>
            maxTicketPurchaseExceeded (handleInputChange cfg p s input)
            \<and> userNotEnoughCake (handleInputChange cfg p s input) = userNotEnoughCake s)
    \<and> (a * min (of_int r) c \<le> b \<and> maxPossibleTicketPurchase s \<noteq> Fin (min (of_int r) c) \<longrightarrow>
            \<not> userNotEnoughCake (handleInputChange cfg p s input)
            \<and> \<not> maxTicketPurchaseExceeded (handleInputChange cfg p s input))
    \<and> ticketsToBuy (handleInputChange cfg p s input)
         = (if r = 0 then ''0'' else BigNumber_toString cfg (Fin (min (of_int r) c)))
    \<and> (c < of_int r \<longrightarrow> min (of_int r) c = c)
    \<and> (c < of_int r \<and> is_int c \<and> 0 < a \<and> a * c \<le> b \<longrightarrow>
            maxTicketPurchaseExceeded
              (handleInputChange cfg p (getMaxPossiblePurchase cfg p s) input))"
proof -
  have last: "maxTicketPurchaseExceeded
      (handleInputChange cfg p (getMaxPossiblePurchase cfg p s) input)"
    if "c < of_int r" "is_int c" "0 < a" "a * c \<le> b"
  proof -
    from that(2) obtain k where k: "c = of_int k"
      unfolding is_int_def by metis
    have "is_int (c * 10 ^ DECIMAL_PLACES cfg)"
      unfolding k by (rule is_int_of_int_times_power)
    moreover have "c \<le> b / a"
      using that(3,4) by (simp add: field_simps)
    ultimately have "c \<le> round_dp cfg (b / a)"
      by (intro round_dp_ge)
    then have mx: "maxPossibleTicketPurchase (getMaxPossiblePurchase cfg p s) = Fin c"
      using getMaxPossiblePurchase_finite(1) [OF balance price _ cap, of cfg s] that(3)
      by (simp add: min_def)
    have "min (of_int r) c = c"
      using that(1) by simp
    then show ?thesis
      using that(4) mx
      by (simp add: handleInputChange_whole_input [OF input cap price balance]
          del: BigNumber_toString.simps)
  qed
  show ?thesis
    using last
    by (simp add: handleInputChange_whole_input [OF input cap price balance] not_less
        del: BigNumber_toString.simps)
qed

theorem input_is_clamped_then_classified_witness:
  "(100::rat) < of_int 150 \<and> is_int 100 \<and> (0::rat) < 1 \<and> (1::rat) * 100 \<le> 1000
   \<and> parseInt10 ''150'' = Number (of_int 150) \<and> \<bar>150 :: int\<bar> < 2 ^ 53
   \<and> maxTicketPurchaseExceeded (handleInputChange bignumber_defaults
       \<lparr>maxNumberTicketsPerBuyOrClaim = Fin 100, priceTicketInCake = Fin 1,
        discountDivisor = Fin 2000, userCake = Fin 1000, hasFetchedBalance = True,
        isApproved = True, isConfirmed = False, ticketsForPurchase_length = 0\<rparr>
       (getMaxPossiblePurchase bignumber_defaults
         \<lparr>maxNumberTicketsPerBuyOrClaim = Fin 100, priceTicketInCake = Fin 1,
          discountDivisor = Fin 2000, userCake = Fin 1000, hasFetchedBalance = True,
          isApproved = True, isConfirmed = False, ticketsForPurchase_length = 0\<rparr> initial_state) ''150'')"
proof -
  let ?p = "\<lparr>maxNumberTicketsPerBuyOrClaim = Fin 100, priceTicketInCake = Fin 1,
             discountDivisor = Fin 2000, userCake = Fin 1000, hasFetchedBalance = True,
             isApproved = True, isConfirmed = False, ticketsForPurchase_length = 0\<rparr>"
  have i: "parseInt10 ''150'' = Number (of_int 150)"
    by (simp add: parse_eval)
  have e: "maxNumberTicketsPerBuyOrClaim ?p = Fin 100" "priceTicketInCake ?p = Fin 1"
    "userCake ?p = Fin 1000"
    by simp_all
  have o: "(100::rat) < of_int 150" "is_int 100" "(0::rat) < 1" "(1::rat) * 100 \<le> 1000"
    by (simp_all add: is_int_def)
  have x: "\<bar>150 :: int\<bar> < 2 ^ 53"
    by simp
  from input_is_clamped_then_classified [OF i x e, of bignumber_defaults initial_state] o i x
  show ?thesis
    by blast
qed

lemma to_double_not_NaN: "to_double q \<noteq> Number_NaN"
  by (simp add: to_double_def Let_def)

text \<open>\<^verbatim>\<open>parseInt\<close> yields NaN on exactly the texts that do not start with a whole number.\<close>

lemma parseInt10_NaN_iff: "parseInt10 s = Number_NaN \<longleftrightarrow> no_leading_digits s"
proof -
  have "takeWhile is_digit u = [] \<longleftrightarrow> u = [] \<or> \<not> is_digit (hd u)" for u
    by (cases u) auto
  then show ?thesis
    by (simp add: parseInt10_def no_leading_digits_def Let_def to_double_not_NaN)
qed

lemma bn_times_NaN_right: "bn_times x NaN = NaN"
  by (cases x) simp_all

lemma handleInputChange_NaN:
  assumes "parseInt10 input = Number_NaN"
  shows "handleInputChange cfg p s input =
    s\<lparr>userNotEnoughCake := False, maxTicketPurchaseExceeded := False, ticketsToBuy := ''0''\<rparr>"
proof -
  have "limitNumberByMaxTicketsPerBuy p NaN = NaN"
    by (simp add: limitNumberByMaxTicketsPerBuy_def)
  then show ?thesis
    using assms
    by (simp add: handleInputChange_def getCakeValueOfTickets_def Let_def bn_times_NaN_right)
qed

lemma handleInputChange_digits_then_rest:
  assumes n: "0 < n" "n < 2 ^ 53" and rest: "rest = [] \<or> \<not> is_digit (hd rest)"
    and cap: "maxNumberTicketsPerBuyOrClaim p = Fin (of_int k)" "0 < k"
    and cfg: "TO_EXP_NEG cfg < 0" "16 \<le> TO_EXP_POS cfg"
  shows "ticketsToBuy (handleInputChange cfg p s (digits_of n @ rest)) = digits_of (min n k)"
    and "digits_of (min n k) \<noteq> ''0''"
proof -
  have d: "digits_of n \<noteq> []" "list_all is_digit (digits_of n)"
    and v: "digits_value 0 (digits_of n) = n"
    using n(1) by (simp_all add: digits_of_not_Nil digits_of_all_digits digits_value_digits_of)
  have "\<bar>n\<bar> < 2 ^ 53"
    using n by simp
  then have i: "parseInt10 (digits_of n @ rest) = Number (of_int n)"
    by (simp add: parseInt10_digits_then_rest [OF d rest] v to_double_of_int)
  have l: "limitNumberByMaxTicketsPerBuy p (Fin (of_int n)) = Fin (of_int (min n k))"
    by (simp add: limitNumberByMaxTicketsPerBuy_finite [OF cap(1)] min_def)
  have m: "0 < min n k" "min n k < 2 ^ 53"
    using n cap(2) by (simp_all add: min_def)
  have "(2::int) ^ 53 < 10 ^ 16"
    by simp
  also have "\<dots> \<le> 10 ^ nat (TO_EXP_POS cfg)"
    using cfg(2) by (intro power_increasing) simp_all
  finally have "\<bar>min n k\<bar> < 10 ^ nat (TO_EXP_POS cfg)"
    using m by simp
  then have "BigNumber_toString cfg (Fin (of_int (min n k)))
      = (if min n k < 0 then ''-'' else []) @ digits_of \<bar>min n k\<bar>"
    using cfg by (intro BigNumber_toString_whole) simp_all
  then have p: "BigNumber_toString cfg (Fin (of_int (min n k))) = digits_of (min n k)"
    using m(1) by (simp del: BigNumber_toString.simps)
  show "ticketsToBuy (handleInputChange cfg p s (digits_of n @ rest)) = digits_of (min n k)"
    using n(1) by (simp add: ticketsToBuy_handleInputChange i l p del: BigNumber_toString.simps)
  show "digits_of (min n k) \<noteq> ''0''"
  proof
    assume "digits_of (min n k) = ''0''"
    then have "digits_value 0 (digits_of (min n k)) = digits_value 0 ''0''"
      by simp
    then have "min n k = 0"
      using m(1) by (simp add: digits_value_digits_of digit_value_def)
    with m(1) show False
      by simp
  qed
qed

lemma non_numeric_examples:
  "non_numeric ''''" "non_numeric ''abc''" "non_numeric ''12abc''" "\<not> non_numeric ''12''"
  unfolding non_numeric_def by code_simp+

text \<open>
  Claim C9 as the specification states it: every non-numeric input is normalised to the
  quantity 0. The handler reads the input with \<^verbatim>\<open>parseInt\<close>, which takes the whole number
  at the start of a text and ignores what follows. The text 12abc is not a number, yet
  with a balance of 10, a price of 1 and a cap of 100 the handler stores the quantity 12.
\<close>

theorem non_numeric_input_kept_as_its_prefix_counterexample:
  "non_numeric ''12abc''
   \<and> ticketsToBuy (handleInputChange bignumber_defaults
       \<lparr>maxNumberTicketsPerBuyOrClaim = Fin 100, priceTicketInCake = Fin 1,
        discountDivisor = Fin 2000, userCake = Fin 10, hasFetchedBalance = True,
        isApproved = True, isConfirmed = False, ticketsForPurchase_length = 0\<rparr> initial_state ''12abc'') = ''12''"
proof -
  let ?p = "\<lparr>maxNumberTicketsPerBuyOrClaim = Fin 100, priceTicketInCake = Fin 1,
             discountDivisor = Fin 2000, userCake = Fin 10, hasFetchedBalance = True,
             isApproved = True, isConfirmed = False, ticketsForPurchase_length = 0\<rparr>"
  have n: "non_numeric ''12abc''"
    unfolding non_numeric_def by code_simp
  have i: "parseInt10 ''12abc'' = Number (of_int 12)"
    by (simp add: parse_eval)
  have e: "maxNumberTicketsPerBuyOrClaim ?p = Fin 100" "priceTicketInCake ?p = Fin 1"
    "userCake ?p = Fin 10"
    by simp_all
  have t: "BigNumber_toString bignumber_defaults (Fin 12) = ''12''"
    by (simp add: print_eval bignumber_defaults_def)
  have "ticketsToBuy (handleInputChange bignumber_defaults ?p initial_state ''12abc'') = ''12''"
    by (subst handleInputChange_whole_input [OF i e])
      (simp add: t del: BigNumber_toString.simps)
  with n show ?thesis
    by simp
qed

text \<open>
  Claim C9, amended. For every input text that does not start with a whole number (after
  leading white space and an optional sign it does not go on with a digit; the empty text
  is one), whatever the round's data, the balance and the state, the handler stores the
  quantity text 0, which reads as the number zero, and clears both flags. A text that
  starts with the digits of a whole number \<open>n\<close>, above zero and below \<open>2^53\<close>, and goes on
  with anything but a digit is not normalised to zero: under a whole cap \<open>k\<close> above zero
  the handler stores the digits of the smaller of \<open>n\<close> and \<open>k\<close>. The model of the
  handler has no failing branch because the source has none: \<^verbatim>\<open>parseInt\<close> and the
  BigNumber operations answer NaN instead of throwing.
\<close>

theorem input_without_leading_digits_becomes_zero:
  "(no_leading_digits input \<longrightarrow>
      ticketsToBuy (handleInputChange cfg p s input) = ''0''
      \<and> BigNumber_of_string (ticketsToBuy (handleInputChange cfg p s input)) = Fin 0
      \<and> \<not> userNotEnoughCake (handleInputChange cfg p s input)
      \<and> \<not> maxTicketPurchaseExceeded (handleInputChange cfg p s input))
   \<and> (0 < n \<and> n < 2 ^ 53 \<and> (rest = [] \<or> \<not> is_digit (hd rest))
        \<and> maxNumberTicketsPerBuyOrClaim p = Fin (of_int k) \<and> 0 < k
        \<and> TO_EXP_NEG cfg < 0 \<and> 16 \<le> TO_EXP_POS cfg \<longrightarrow>
      ticketsToBuy (handleInputChange cfg p s (digits_of n @ rest)) = digits_of (min n k)
      \<and> digits_of (min n k) \<noteq> ''0'')"
proof -
  have z: "BigNumber_of_string ''0'' = Fin 0"
    by code_simp
  have a: "ticketsToBuy (handleInputChange cfg p s input) = ''0''
      \<and> BigNumber_of_string (ticketsToBuy (handleInputChange cfg p s input)) = Fin 0
      \<and> \<not> userNotEnoughCake (handleInputChange cfg p s input)
      \<and> \<not> maxTicketPurchaseExceeded (handleInputChange cfg p s input)"
    if "no_leading_digits input"
  proof -
    from that have "parseInt10 input = Number_NaN"
      by (simp add: parseInt10_NaN_iff)
    then show ?thesis
      by (simp add: handleInputChange_NaN z)
  qed
  have d: "ticketsToBuy (handleInputChange cfg p s (digits_of n @ rest)) = digits_of (min n k)
      \<and> digits_of (min n k) \<noteq> ''0''"
    if "0 < n" "n < 2 ^ 53" "rest = [] \<or> \<not> is_digit (hd rest)"
      "maxNumberTicketsPerBuyOrClaim p = Fin (of_int k)" "0 < k"
      "TO_EXP_NEG cfg < 0" "16 \<le> TO_EXP_POS cfg"
    using handleInputChange_digits_then_rest [OF that] by (intro conjI)
  from a d show ?thesis
    by blast
qed

theorem input_without_leading_digits_becomes_zero_witness:
  "no_leading_digits '''' \<and> no_leading_digits ''abc''
   \<and> ticketsToBuy (handleInputChange bignumber_defaults
       \<lparr>maxNumberTicketsPerBuyOrClaim = Fin 100, priceTicketInCake = Fin 1,
        discountDivisor = Fin 2000, userCake = Fin 10, hasFetchedBalance = True,
        isApproved = True, isConfirmed = False, ticketsForPurchase_length = 0\<rparr>
       (initial_state\<lparr>ticketsToBuy := ''7''\<rparr>) '''') = ''0''
   \<and> ticketsToBuy (handleInputChange bignumber_defaults
       \<lparr>maxNumberTicketsPerBuyOrClaim = Fin 100, priceTicketInCake = Fin 1,
        discountDivisor = Fin 2000, userCake = Fin 10, hasFetchedBalance = True,
        isApproved = True, isConfirmed = False, ticketsForPurchase_length = 0\<rparr>
       (initial_state\<lparr>ticketsToBuy := ''7''\<rparr>) ''abc'') = ''0''
   \<and> ticketsToBuy (handleInputChange bignumber_defaults
       \<lparr>maxNumberTicketsPerBuyOrClaim = Fin 100, priceTicketInCake = Fin 1,
        discountDivisor = Fin 2000, userCake = Fin 10, hasFetchedBalance = True,
        isApproved = True, isConfirmed = False, ticketsForPurchase_length = 0\<rparr>
       (initial_state\<lparr>ticketsToBuy := ''7''\<rparr>) (digits_of 12 @ ''abc''))
     = digits_of (min 12 100)"
proof -
  let ?p = "\<lparr>maxNumberTicketsPerBuyOrClaim = Fin 100, priceTicketInCake = Fin 1,
             discountDivisor = Fin 2000, userCake = Fin 10, hasFetchedBalance = True,
             isApproved = True, isConfirmed = False, ticketsForPurchase_length = 0\<rparr>"
  have n: "no_leading_digits ''''" "no_leading_digits ''abc''"
    by code_simp+
  have h: "(0::int) < 12 \<and> (12::int) < 2 ^ 53 \<and> (''abc'' = [] \<or> \<not> is_digit (hd ''abc''))
      \<and> maxNumberTicketsPerBuyOrClaim ?p = Fin (of_int 100) \<and> (0::int) < 100
      \<and> TO_EXP_NEG bignumber_defaults < 0 \<and> 16 \<le> TO_EXP_POS bignumber_defaults"
    by (simp add: is_digit_def bignumber_defaults_def)
  from input_without_leading_digits_becomes_zero
      [where input = "''''" and cfg = bignumber_defaults and p = ?p
        and s = "initial_state\<lparr>ticketsToBuy := ''7''\<rparr>" and n = 12 and rest = "''abc''"
        and k = 100]
    input_without_leading_digits_becomes_zero
      [where input = "''abc''" and cfg = bignumber_defaults and p = ?p
        and s = "initial_state\<lparr>ticketsToBuy := ''7''\<rparr>" and n = 12 and rest = "''abc''"
        and k = 100]
    n h
  show ?thesis
    by blast
qed

section \<open>The guard of the purchase\<close>

text \<open>
  The requested quantity is the text \<^verbatim>\<open>ticketsToBuy\<close>; it stands for the whole number
  \<open>q\<close> when both of its readers, \<^verbatim>\<open>new BigNumber\<close> and \<^verbatim>\<open>parseInt\<close>, read \<open>q\<close>.
\<close>

lemma disableBuying_whole_quantity:
  assumes "BigNumber_of_string (ticketsToBuy s) = Fin (of_int q)"
    and "parseInt10 (ticketsToBuy s) = Number (of_int q)"
  shows "\<not> disableBuying p s \<longleftrightarrow>
     isApproved p \<and> \<not> isConfirmed p \<and> \<not> userNotEnoughCake s \<and> 0 < q
     \<and> int (ticketsForPurchase_length p) = q"
proof -
  have "ticketsToBuy s \<noteq> []"
    using assms(2) by (auto simp: parseInt10_def)
  moreover have "(of_nat (ticketsForPurchase_length p) :: rat) = of_int q
      \<longleftrightarrow> int (ticketsForPurchase_length p) = q"
    by (metis of_int_eq_iff of_int_of_nat_eq)
  ultimately show ?thesis
    using assms by (auto simp: disableBuying_def bn_lte_def)
qed

text \<open>
  After the input handler, under the conditions that make it store the plain text of a
  whole number, the guard is open exactly when approval is granted, the flow is not yet
  confirmed, the balance flag is off, that number is positive, and the ticket reducer
  returns that many ticket numbers.
\<close>

lemma purchase_guard_after_handleInputChange:
  assumes "maxNumberTicketsPerBuyOrClaim p = Fin (of_int c)" "\<bar>c\<bar> < 2 ^ 53"
    and "TO_EXP_NEG cfg < 0" "16 \<le> TO_EXP_POS cfg"
    and "parseInt10 input \<noteq> Number_NegInfinity"
      "\<And>v. parseInt10 input = Number v \<Longrightarrow> - (2 ^ 53) < v"
  shows "\<exists>q. \<bar>q\<bar> < 2 ^ 53
    \<and> ticketsToBuy (handleInputChange cfg p s input)
      = (if q < 0 then ''-'' else []) @ digits_of \<bar>q\<bar>
    \<and> (\<not> disableBuying p' (handleInputChange cfg p s input) \<longleftrightarrow>
         isApproved p' \<and> \<not> isConfirmed p'
         \<and> \<not> userNotEnoughCake (handleInputChange cfg p s input) \<and> 0 < q
         \<and> int (ticketsForPurchase_length p') = q)"
proof -
  from handleInputChange_writes_whole_text [OF assms, of s] obtain q
    where q: "\<bar>q\<bar> < 2 ^ 53"
      "ticketsToBuy (handleInputChange cfg p s input)
        = (if q < 0 then ''-'' else []) @ digits_of \<bar>q\<bar>"
    by blast
  have "\<not> disableBuying p' (handleInputChange cfg p s input) \<longleftrightarrow>
      isApproved p' \<and> \<not> isConfirmed p'
      \<and> \<not> userNotEnoughCake (handleInputChange cfg p s input) \<and> 0 < q
      \<and> int (ticketsForPurchase_length p') = q"
    using readers_of_whole_text [OF q(1)] unfolding q(2) [symmetric]
    by (rule disableBuying_whole_quantity)
  with q show ?thesis
    by blast
qed

lemma to_double_10_pow_21: "to_double (10 ^ 21) = Number (10 ^ 21)"
proof (rule to_double_eval [where l = 69 and m = "7629394531250000"])
  have b: "bitlen (10 ^ 21) = 70"
    by code_simp
  show "(0::rat) < 10 ^ 21"
    by simp
  show "floor_log2 (10 ^ 21) = 69"
    using floor_log2_from_one_eval [of "10 ^ 21" "10 ^ 21" 70] b by simp
  show "- 1074 \<le> (69::int) - 52"
    by simp
  show "round_half_even (10 ^ 21 / 2 powi (69 - 52)) = 7629394531250000"
    by (rule round_half_even_eval) (simp_all add: power_int_def)
  show "of_int 7629394531250000 * 2 powi (69 - 52) = (10::rat) ^ 21"
    by (simp add: power_int_def)
  show "(10::rat) ^ 21 < 2 ^ 1024"
    by simp
qed

text \<open>
  Claim C3 as the specification states it: the purchase is enabled exactly when, besides
  the approval, the confirmation and the balance flag, the requested quantity is a
  positive whole number and the ticket reducer returns that many ticket numbers. The
  guard reads the quantity text twice, as a decimal for the sign test and with
  \<^verbatim>\<open>parseInt\<close> for the count, and the two readings can differ. Under a cap of \<open>10^30\<close>,
  with a price of 1 and a balance of \<open>10^21\<close>, once the maximum has been computed, the
  input handler turns the input 1000000000000000000000 into the quantity text 1e+21 (the
  number \<open>10^21\<close> is a double and prints as 1e+21, in JavaScript and in the decimal
  library alike); the decimal reading is \<open>10^21\<close>, \<^verbatim>\<open>parseInt\<close> reads 1, and with one
  ticket number the purchase is enabled. With the quantity text 2.5 and two ticket
  numbers the purchase is enabled as well.
\<close>

theorem purchase_enabled_where_readings_differ_counterexample:
  "ticketsToBuy (handleInputChange bignumber_defaults
       \<lparr>maxNumberTicketsPerBuyOrClaim = Fin (10 ^ 30), priceTicketInCake = Fin 1,
        discountDivisor = Fin 2000, userCake = Fin (10 ^ 21), hasFetchedBalance = True,
        isApproved = True, isConfirmed = False, ticketsForPurchase_length = 1\<rparr>
       (getMaxPossiblePurchase bignumber_defaults
         \<lparr>maxNumberTicketsPerBuyOrClaim = Fin (10 ^ 30), priceTicketInCake = Fin 1,
          discountDivisor = Fin 2000, userCake = Fin (10 ^ 21), hasFetchedBalance = True,
          isApproved = True, isConfirmed = False, ticketsForPurchase_length = 1\<rparr> initial_state)
       ''1000000000000000000000'') = ''1e+21''
   \<and> BigNumber_of_string ''1e+21'' = Fin (10 ^ 21)
   \<and> ticketsForPurchase_length
       \<lparr>maxNumberTicketsPerBuyOrClaim = Fin (10 ^ 30), priceTicketInCake = Fin 1,
        discountDivisor = Fin 2000, userCake = Fin (10 ^ 21), hasFetchedBalance = True,
        isApproved = True, isConfirmed = False, ticketsForPurchase_length = 1\<rparr> = 1
   \<and> \<not> disableBuying
       \<lparr>maxNumberTicketsPerBuyOrClaim = Fin (10 ^ 30), priceTicketInCake = Fin 1,
        discountDivisor = Fin 2000, userCake = Fin (10 ^ 21), hasFetchedBalance = True,
        isApproved = True, isConfirmed = False, ticketsForPurchase_length = 1\<rparr>
       (handleInputChange bignumber_defaults
         \<lparr>maxNumberTicketsPerBuyOrClaim = Fin (10 ^ 30), priceTicketInCake = Fin 1,
          discountDivisor = Fin 2000, userCake = Fin (10 ^ 21), hasFetchedBalance = True,
          isApproved = True, isConfirmed = False, ticketsForPurchase_length = 1\<rparr>
         (getMaxPossiblePurchase bignumber_defaults
           \<lparr>maxNumberTicketsPerBuyOrClaim = Fin (10 ^ 30), priceTicketInCake = Fin 1,
            discountDivisor = Fin 2000, userCake = Fin (10 ^ 21), hasFetchedBalance = True,
            isApproved = True, isConfirmed = False, ticketsForPurchase_length = 1\<rparr> initial_state)
         ''1000000000000000000000'')
   \<and> BigNumber_of_string ''2.5'' = Fin (5 / 2)
   \<and> ticketsForPurchase_length
       \<lparr>maxNumberTicketsPerBuyOrClaim = Fin 100, priceTicketInCake = Fin 1,
        discountDivisor = Fin 2000, userCake = Fin 1000, hasFetchedBalance = True,
        isApproved = True, isConfirmed = False, ticketsForPurchase_length = 2\<rparr> = 2
   \<and> \<not> disableBuying
       \<lparr>maxNumberTicketsPerBuyOrClaim = Fin 100, priceTicketInCake = Fin 1,
        discountDivisor = Fin 2000, userCake = Fin 1000, hasFetchedBalance = True,
        isApproved = True, isConfirmed = False, ticketsForPurchase_length = 2\<rparr>
       (initial_state\<lparr>ticketsToBuy := ''2.5''\<rparr>)"
proof -
  let ?p = "\<lparr>maxNumberTicketsPerBuyOrClaim = Fin (10 ^ 30), priceTicketInCake = Fin 1,
             discountDivisor = Fin 2000, userCake = Fin (10 ^ 21), hasFetchedBalance = True,
             isApproved = True, isConfirmed = False, ticketsForPurchase_length = 1\<rparr>"
  let ?r = "\<lparr>maxNumberTicketsPerBuyOrClaim = Fin 100, priceTicketInCake = Fin 1,
             discountDivisor = Fin 2000, userCake = Fin 1000, hasFetchedBalance = True,
             isApproved = True, isConfirmed = False, ticketsForPurchase_length = 2\<rparr>"
  let ?s = "getMaxPossiblePurchase bignumber_defaults ?p initial_state"
  have b: "BigNumber_of_string ''1e+21'' = Fin (10 ^ 21)"
    by code_simp
  have n: "parseInt10 ''1e+21'' = Number 1"
    by (simp add: parse_eval)
  have b': "BigNumber_of_string ''2.5'' = Fin (5 / 2)"
    by code_simp
  have n': "parseInt10 ''2.5'' = Number 2"
    by (simp add: parse_eval)
  have "parseInt10 ''1000000000000000000000''
      = to_double (of_int (digits_value 0 ''1000000000000000000000''))"
    by (rule parseInt10_digits(1)) (simp_all add: is_digit_def)
  also have "digits_value 0 ''1000000000000000000000'' = 10 ^ 21"
    by (simp add: digit_value_def)
  finally have i: "parseInt10 ''1000000000000000000000'' = Number (of_int (10 ^ 21))"
    using to_double_10_pow_21 by simp
  have e: "maxNumberTicketsPerBuyOrClaim ?p = Fin (10 ^ 30)" "priceTicketInCake ?p = Fin 1"
    "userCake ?p = Fin (10 ^ 21)"
    by simp_all
  have t: "BigNumber_toString bignumber_defaults (Fin (10 ^ 21)) = ''1e+21''"
    by (simp add: print_eval bignumber_defaults_def)
  have m: "min (of_int (10 ^ 21)) (10 ^ 30 :: rat) = 10 ^ 21"
    by simp
  have q: "round_dp bignumber_defaults (10 ^ 21 / 1) = 10 ^ 21"
    using round_dp_of_int [of bignumber_defaults "10 ^ 21"] by simp
  have s: "maxPossibleTicketPurchase ?s = Fin (10 ^ 21)" "\<not> userNotEnoughCake ?s"
    using getMaxPossiblePurchase_finite [OF e(3) e(2) _ e(1), of bignumber_defaults initial_state]
    unfolding q by simp_all
  have h: "handleInputChange bignumber_defaults ?p ?s ''1000000000000000000000''
      = ?s\<lparr>maxTicketPurchaseExceeded := True, ticketsToBuy := ''1e+21''\<rparr>"
    unfolding handleInputChange_whole_input [OF i e] m t s(1) by simp
  have g: "\<not> disableBuying ?p
      (?s\<lparr>maxTicketPurchaseExceeded := True, ticketsToBuy := ''1e+21''\<rparr>)"
    using s(2) by (simp add: disableBuying_def bn_lte_def b n)
  have g': "\<not> disableBuying ?r (initial_state\<lparr>ticketsToBuy := ''2.5''\<rparr>)"
    by (simp add: disableBuying_def bn_lte_def b' n' initial_state_def)
  show ?thesis
    unfolding h using b b' g g' by simp
qed

text \<open>
  Claim C3, amended. The purchase is enabled if and only if approval is granted, the flow
  is not yet confirmed, the balance flag is off, the quantity text is not empty, its
  reading as a decimal is above zero or is not a number, and \<^verbatim>\<open>parseInt\<close> reads from the
  quantity text the number of ticket numbers that the ticket reducer returns. When the
  quantity text is the plain decimal text of a whole number \<open>q\<close> below \<open>2^53\<close> in
  magnitude, its digits after a minus sign if it is negative, this says: approval is
  granted, the flow is not yet confirmed, the balance flag is off, \<open>q\<close> is positive, and
  the ticket reducer returns exactly \<open>q\<close> ticket numbers.
\<close>

theorem purchase_enabled_iff_readings_of_quantity_text:
  "(\<not> disableBuying p s \<longleftrightarrow>
      isApproved p \<and> \<not> isConfirmed p \<and> \<not> userNotEnoughCake s
      \<and> ticketsToBuy s \<noteq> []
      \<and> (BigNumber_of_string (ticketsToBuy s) = NaN
          \<or> bn_gt (BigNumber_of_string (ticketsToBuy s)) (Fin 0))
      \<and> parseInt10 (ticketsToBuy s) = Number (of_nat (ticketsForPurchase_length p)))
   \<and> (\<bar>q\<bar> < 2 ^ 53 \<and> ticketsToBuy s = (if q < 0 then ''-'' else []) @ digits_of \<bar>q\<bar> \<longrightarrow>
        (\<not> disableBuying p s \<longleftrightarrow>
           isApproved p \<and> \<not> isConfirmed p \<and> \<not> userNotEnoughCake s \<and> 0 < q
           \<and> int (ticketsForPurchase_length p) = q))"
proof -
  have a: "\<not> disableBuying p s \<longleftrightarrow>
      isApproved p \<and> \<not> isConfirmed p \<and> \<not> userNotEnoughCake s
      \<and> ticketsToBuy s \<noteq> []
      \<and> (BigNumber_of_string (ticketsToBuy s) = NaN
          \<or> bn_gt (BigNumber_of_string (ticketsToBuy s)) (Fin 0))
      \<and> parseInt10 (ticketsToBuy s) = Number (of_nat (ticketsForPurchase_length p))"
    by (cases "BigNumber_of_string (ticketsToBuy s)") (auto simp: disableBuying_def bn_lte_def)
  have w: "\<not> disableBuying p s \<longleftrightarrow>
      isApproved p \<and> \<not> isConfirmed p \<and> \<not> userNotEnoughCake s \<and> 0 < q
      \<and> int (ticketsForPurchase_length p) = q"
    if "\<bar>q\<bar> < 2 ^ 53" "ticketsToBuy s = (if q < 0 then ''-'' else []) @ digits_of \<bar>q\<bar>"
    using readers_of_whole_text [OF that(1)] unfolding that(2) [symmetric]
    by (rule disableBuying_whole_quantity)
  from a w show ?thesis
    by blast
qed

theorem purchase_enabled_iff_readings_of_quantity_text_witness:
  "\<bar>3 :: int\<bar> < 2 ^ 53
   \<and> ticketsToBuy (initial_state\<lparr>ticketsToBuy := ''3''\<rparr>)
     = (if (3::int) < 0 then ''-'' else []) @ digits_of \<bar>3\<bar>
   \<and> \<not> disableBuying
       \<lparr>maxNumberTicketsPerBuyOrClaim = Fin 100, priceTicketInCake = Fin 1,
        discountDivisor = Fin 2000, userCake = Fin 1000, hasFetchedBalance = True,
        isApproved = True, isConfirmed = False, ticketsForPurchase_length = 3\<rparr>
       (initial_state\<lparr>ticketsToBuy := ''3''\<rparr>)
   \<and> disableBuying
       \<lparr>maxNumberTicketsPerBuyOrClaim = Fin 100, priceTicketInCake = Fin 1,
        discountDivisor = Fin 2000, userCake = Fin 1000, hasFetchedBalance = True,
        isApproved = True, isConfirmed = False, ticketsForPurchase_length = 2\<rparr>
       (initial_state\<lparr>ticketsToBuy := ''3''\<rparr>)"
proof -
  let ?s = "initial_state\<lparr>ticketsToBuy := ''3''\<rparr>"
  have x: "\<bar>3 :: int\<bar> < 2 ^ 53" "(0::int) < 3"
    by simp_all
  have d: "ticketsToBuy ?s = (if (3::int) < 0 then ''-'' else []) @ digits_of \<bar>3\<bar>"
    by (simp add: digits_of.simps digit_char_def)
  have u: "\<not> userNotEnoughCake ?s"
    by (simp add: initial_state_def)
  have a: "isApproved \<lparr>maxNumberTicketsPerBuyOrClaim = Fin 100, priceTicketInCake = Fin 1,
                       discountDivisor = Fin 2000, userCake = Fin 1000, hasFetchedBalance = True,
                       isApproved = True, isConfirmed = False, ticketsForPurchase_length = 3\<rparr>"
    "\<not> isConfirmed \<lparr>maxNumberTicketsPerBuyOrClaim = Fin 100, priceTicketInCake = Fin 1,
                         discountDivisor = Fin 2000, userCake = Fin 1000, hasFetchedBalance = True,
                         isApproved = True, isConfirmed = False, ticketsForPurchase_length = 3\<rparr>"
    "int (ticketsForPurchase_length \<lparr>maxNumberTicketsPerBuyOrClaim = Fin 100, priceTicketInCake = Fin 1,
                                     discountDivisor = Fin 2000, userCake = Fin 1000, hasFetchedBalance = True,
                                     isApproved = True, isConfirmed = False, ticketsForPurchase_length = 3\<rparr>) = 3"
    "int (ticketsForPurchase_length \<lparr>maxNumberTicketsPerBuyOrClaim = Fin 100, priceTicketInCake = Fin 1,
                                     discountDivisor = Fin 2000, userCake = Fin 1000, hasFetchedBalance = True,
                                     isApproved = True, isConfirmed = False, ticketsForPurchase_length = 2\<rparr>) \<noteq> 3"
    by simp_all
  from purchase_enabled_iff_readings_of_quantity_text
      [where p = "\<lparr>maxNumberTicketsPerBuyOrClaim = Fin 100, priceTicketInCake = Fin 1,
                   discountDivisor = Fin 2000, userCake = Fin 1000, hasFetchedBalance = True,
                   isApproved = True, isConfirmed = False, ticketsForPurchase_length = 3\<rparr>" and s = ?s and q = 3]
    purchase_enabled_iff_readings_of_quantity_text
      [where p = "\<lparr>maxNumberTicketsPerBuyOrClaim = Fin 100, priceTicketInCake = Fin 1,
                   discountDivisor = Fin 2000, userCake = Fin 1000, hasFetchedBalance = True,
                   isApproved = True, isConfirmed = False, ticketsForPurchase_length = 2\<rparr>" and s = ?s and q = 3]
    x d u a
  show ?thesis
    by blast
qed



section \<open>The allowance check\<close>

text \<open>
  Claim C4. \<^verbatim>\<open>onRequiresApproval\<close> answers "already approved" exactly when the allowance
  query succeeds with a value above zero. When the query throws, the answer is "not
  approved", so the flow asks for approval.
\<close>

theorem approved_iff_allowance_succeeds_above_zero:
  "(onRequiresApproval allowance
      \<longleftrightarrow> (\<exists>response. allowance = Inr response \<and> 0 < unat response))
   \<and> \<not> onRequiresApproval (Inl e)"
  by (cases allowance)
    (auto simp: onRequiresApproval_def ethersToBigNumber_def simp del: of_nat_unat)

end
